theory Spec2Isabelle
  imports Complex_Main "HOL-Library.AList"
begin

section \<open>Values, errors and messages\<close>

text \<open>
  Python floats are modelled as reals (rounding is not modelled). A Python \<open>str\<close> is a
  \<open>string\<close> whose characters are read as the code points U+0000 .. U+00FF; the
  classification of these code points is the one of Python's Unicode database.
\<close>

text \<open>The exceptions the code can raise; \<open>LibraryError\<close> stands for any exception of a library.\<close>

datatype py_error = ZeroDivisionError | IndexError | TypeError | AttributeError | LibraryError

text \<open>A \<open>datetime\<close> is known by the two renderings the code asks for:
  \<open>isoformat()\<close> and \<open>strftime('%B %d, %Y')\<close>.\<close>

datatype datetime = Datetime (isoformat: string) (strftime_long: string)

record message =
  id' :: string
  user_id :: string
  user_name :: string
  timestamp :: datetime
  message :: string

section \<open>Tokenization (\<open>HybridRetriever._tokenize\<close>)\<close>

definition code_point :: "char \<Rightarrow> nat" where
  "code_point c = of_char c"

text \<open>\<open>str.lower()\<close> on one code point below 256.\<close>

definition lower_char :: "char \<Rightarrow> char" where
  "lower_char c =
     (let n = code_point c
      in if (65 \<le> n \<and> n \<le> 90) \<or> (192 \<le> n \<and> n \<le> 214) \<or> (216 \<le> n \<and> n \<le> 222)
         then char_of (n + 32) else c)"

text \<open>The class \<open>\s\<close> of \<open>re\<close> on \<open>str\<close>, which is also what \<open>str.split()\<close> splits on.\<close>

definition is_space :: "char \<Rightarrow> bool" where
  "is_space c =
     (let n = code_point c
      in (9 \<le> n \<and> n \<le> 13) \<or> (28 \<le> n \<and> n \<le> 32) \<or> n = 133 \<or> n = 160)"

text \<open>The class \<open>[A-Za-z0-9_]\<close>.\<close>

definition is_ascii_word :: "char \<Rightarrow> bool" where
  "is_ascii_word c =
     (let n = code_point c
      in (48 \<le> n \<and> n \<le> 57) \<or> (65 \<le> n \<and> n \<le> 90) \<or> n = 95 \<or> (97 \<le> n \<and> n \<le> 122))"

text \<open>
  The class \<open>\w\<close> of \<open>re\<close> on \<open>str\<close>: the underscore and every code point that
  \<open>str.isalnum\<close> accepts, which beyond ASCII are letters, digits and numerics.
\<close>

definition is_word :: "char \<Rightarrow> bool" where
  "is_word c =
     (let n = code_point c
      in is_ascii_word c \<or> n = 170 \<or> n = 178 \<or> n = 179 \<or> n = 181 \<or> n = 185 \<or> n = 186
         \<or> (188 \<le> n \<and> n \<le> 190) \<or> (192 \<le> n \<and> n \<le> 214) \<or> (216 \<le> n \<and> n \<le> 246)
         \<or> (248 \<le> n \<and> n \<le> 255))"

text \<open>\<open>str.split()\<close>: the maximal runs of non-whitespace characters.\<close>

fun split_acc :: "string \<Rightarrow> string \<Rightarrow> string list" where
  "split_acc cur [] = (if cur = [] then [] else [cur])"
| "split_acc cur (c # cs) =
     (if is_space c then (if cur = [] then split_acc [] cs else cur # split_acc [] cs)
      else split_acc (cur @ [c]) cs)"

definition py_split :: "string \<Rightarrow> string list" where
  "py_split s = split_acc [] s"

text \<open>\<open>re.sub(r'[^\w\s]', ' ', text.lower()).split()\<close>\<close>

definition sub_punct :: "char \<Rightarrow> char" where
  "sub_punct c = (if is_word c \<or> is_space c then c else CHR '' '')"

definition tokenize :: "string \<Rightarrow> string list" where
  "tokenize text = py_split (map sub_punct (map lower_char text))"

text \<open>
  The tokenization as the specification words it: every character outside
  \<open>[A-Za-z0-9_]\<close> and whitespace becomes a space.
\<close>

definition spec_sub_punct :: "char \<Rightarrow> char" where
  "spec_sub_punct c = (if is_ascii_word c \<or> is_space c then c else CHR '' '')"

definition spec_tokenize :: "string \<Rightarrow> string list" where
  "spec_tokenize text = py_split (map spec_sub_punct (map lower_char text))"

section \<open>The lexical index (\<open>HybridRetriever\<close>)\<close>

definition QUERY_EXPANSIONS :: "(string \<times> string list) list" where
  "QUERY_EXPANSIONS =
    [(''trip'', [''trip'', ''travel'', ''journey'', ''visit'', ''stay'']),
     (''planning'', [''planning'', ''scheduled'', ''booking'', ''arranging'', ''organizing'']),
     (''when'', [''when'', ''date'', ''time'', ''schedule'']),
     (''favorite'', [''favorite'', ''preferred'', ''love'', ''like'', ''enjoy'']),
     (''restaurant'', [''restaurant'', ''dining'', ''eatery'', ''cuisine'']),
     (''car'', [''car'', ''vehicle'', ''automobile'', ''transportation'']),
     (''have'', [''have'', ''own'', ''possess''])]"

text \<open>
  \<open>BM25Okapi\<close> and \<open>numpy.argsort\<close> belong to libraries, so they are parameters:
  a \<open>scorer\<close> is \<open>get_scores\<close> of a built index, one score per document.
\<close>

type_synonym scorer = "string list \<Rightarrow> real list"

record retriever =
  bm25 :: "scorer option"
  messages :: "message list option"
  tokenized_corpus :: "string list list option"

definition HybridRetriever :: retriever where
  "HybridRetriever = \<lparr>bm25 = None, messages = None, tokenized_corpus = None\<rparr>"

text \<open>
  \<open>index_messages\<close> assigns \<open>_messages\<close> and \<open>_tokenized_corpus\<close> before it builds
  the index, so they stay assigned when the constructor of the index raises.
\<close>

definition index_messages ::
  "(string list list \<Rightarrow> py_error + scorer) \<Rightarrow> retriever \<Rightarrow> message list
     \<Rightarrow> py_error option \<times> retriever" where
  "index_messages BM25Okapi self msgs =
     (let self1 = self\<lparr>messages := Some msgs\<rparr>;
          corpus = map (\<lambda>msg. tokenize (user_name msg @ '' '' @ message msg)) msgs;
          self2 = self1\<lparr>tokenized_corpus := Some corpus\<rparr>
      in case BM25Okapi corpus of
           Inl e \<Rightarrow> (Some e, self2)
         | Inr sc \<Rightarrow> (None, self2\<lparr>bm25 := Some sc\<rparr>))"

definition is_indexed :: "retriever \<Rightarrow> bool" where
  "is_indexed self = (bm25 self \<noteq> None)"

text \<open>The expansion loop of \<open>search_bm25\<close>, then \<open>list(set(expanded_tokens))\<close>.\<close>

fun expand_tokens :: "string list \<Rightarrow> string list \<Rightarrow> string list" where
  "expand_tokens expanded [] = expanded"
| "expand_tokens expanded (token # rest) =
     expand_tokens
       ((expanded @ [token]) @
          (case map_of QUERY_EXPANSIONS token of None \<Rightarrow> [] | Some syns \<Rightarrow> syns))
       rest"

text \<open>
  \<open>list(set(xs))\<close>: the elements of \<open>xs\<close>, each once. Python leaves the order of a set
  open; the model keeps the last occurrence of each element.
\<close>

definition list_of_pyset :: "'a list \<Rightarrow> 'a list" where
  "list_of_pyset xs = remdups xs"

definition expand_query :: "string \<Rightarrow> string list" where
  "expand_query query = list_of_pyset (expand_tokens [] (tokenize query))"

text \<open>\<open>xs[:k]\<close>, where a negative \<open>k\<close> counts from the end.\<close>

definition slice_to :: "int \<Rightarrow> 'a list \<Rightarrow> 'a list" where
  "slice_to k xs = (if 0 \<le> k then take (nat k) xs else take (length xs - nat (- k)) xs)"

record bm25_result =
  r_message :: message
  r_bm25_score :: real
  r_id :: string
  r_user_name :: string
  r_document :: string
  r_timestamp :: string

definition mk_result :: "message \<Rightarrow> real \<Rightarrow> bm25_result" where
  "mk_result msg sc =
     \<lparr>r_message = msg, r_bm25_score = sc, r_id = id' msg, r_user_name = user_name msg,
      r_document = message msg, r_timestamp = isoformat (timestamp msg)\<rparr>"

text \<open>
  The loop over \<open>top_indices\<close>. \<open>scores[idx]\<close> and \<open>self._messages[idx]\<close> raise
  \<open>IndexError\<close> out of range, and indexing \<open>None\<close> raises \<open>TypeError\<close>.
\<close>

fun build_results ::
  "message list option \<Rightarrow> real list \<Rightarrow> nat list \<Rightarrow> py_error + bm25_result list" where
  "build_results msgs scores [] = Inr []"
| "build_results msgs scores (idx # rest) =
     (if length scores \<le> idx then Inl IndexError
      else if 0 < scores ! idx then
        (case msgs of
           None \<Rightarrow> Inl TypeError
         | Some ms \<Rightarrow>
             if length ms \<le> idx then Inl IndexError
             else (case build_results msgs scores rest of
                     Inl e \<Rightarrow> Inl e
                   | Inr results \<Rightarrow> Inr (mk_result (ms ! idx) (scores ! idx) # results)))
      else build_results msgs scores rest)"

definition search_bm25 ::
  "(real list \<Rightarrow> nat list) \<Rightarrow> retriever \<Rightarrow> string \<Rightarrow> int \<Rightarrow> bool
     \<Rightarrow> py_error + bm25_result list" where
  "search_bm25 argsort self query top_k use_expansion =
     (case bm25 self of
        None \<Rightarrow> Inr []
      | Some get_scores \<Rightarrow>
          (let tokenized_query = (if use_expansion then expand_query query else tokenize query);
               scores = get_scores tokenized_query;
               top_indices = slice_to top_k (rev (argsort scores))
           in build_results (messages self) scores top_indices))"

text \<open>
  What the libraries promise: \<open>argsort\<close> returns the indices of its argument in an order
  that sorts it (nothing is promised about equal elements), and an index built over a
  corpus scores every document of it.
\<close>

definition argsort_ok :: "(real list \<Rightarrow> nat list) \<Rightarrow> bool" where
  "argsort_ok argsort =
     (\<forall>xs. distinct (argsort xs) \<and> set (argsort xs) = {0..<length xs}
           \<and> sorted (map (\<lambda>i. xs ! i) (argsort xs)))"

definition scorer_ok :: "(string list list \<Rightarrow> py_error + scorer) \<Rightarrow> bool" where
  "scorer_ok BM25Okapi =
     (\<forall>corpus sc q. BM25Okapi corpus = Inr sc \<longrightarrow> length (sc q) = length corpus)"

text \<open>
  One argsort that meets \<open>argsort_ok\<close>: the stable one, which keeps equal elements in
  their order. The default kind of \<open>numpy.argsort\<close> promises no order of equal elements, so
  this is one of the behaviours the library may show, not the only one.
\<close>

definition argsort_stable :: "real list \<Rightarrow> nat list" where
  "argsort_stable xs = sort_key (\<lambda>i. xs ! i) [0..<length xs]"

section \<open>Fusion (\<open>HybridRetriever.hybrid_search\<close>)\<close>

text \<open>
  A result of the dense search is a Python dictionary, and \<open>hybrid_search\<close> writes into
  the dictionaries it is given. So dictionaries live in a store: an address is an index
  into the list of all dictionaries, and a fresh dictionary is appended.
\<close>

datatype pyval = PNone | PStr string | PFloat real

type_synonym pydict = "(string \<times> pyval) list"
type_synonym addr = nat
type_synonym heap = "pydict list"
type_synonym score_dict = "(pyval \<times> real) list"

text \<open>\<open>d.get(k, default)\<close> and \<open>d[k] = v\<close>\<close>

definition dict_get :: "pydict \<Rightarrow> string \<Rightarrow> pyval \<Rightarrow> pyval" where
  "dict_get d k dflt = (case map_of d k of None \<Rightarrow> dflt | Some v \<Rightarrow> v)"

definition dict_set :: "pydict \<Rightarrow> string \<Rightarrow> pyval \<Rightarrow> pydict" where
  "dict_set d k v = AList.update k v d"

definition score_get :: "score_dict \<Rightarrow> pyval \<Rightarrow> real" where
  "score_get d k = (case map_of d k of None \<Rightarrow> 0 | Some v \<Rightarrow> v)"

text \<open>\<open>{r['id']: r['bm25_score'] for r in bm25_results}\<close>\<close>

definition bm25_score_dict :: "bm25_result list \<Rightarrow> score_dict" where
  "bm25_score_dict bm25_results =
     foldl (\<lambda>d r. AList.update (PStr (r_id r)) (r_bm25_score r) d) [] bm25_results"

text \<open>
  The loop that fills \<open>semantic_scores\<close>. Adding \<open>1.0\<close> to a distance that is not a
  number raises \<open>TypeError\<close>; a distance of \<open>-1\<close> divides by zero.
\<close>

fun semantic_score_dict :: "heap \<Rightarrow> score_dict \<Rightarrow> addr list \<Rightarrow> py_error + score_dict" where
  "semantic_score_dict h semantic_scores [] = Inr semantic_scores"
| "semantic_score_dict h semantic_scores (a # rest) =
     (let r = h ! a; msg_id = dict_get r ''id'' PNone
      in case dict_get r ''distance'' (PFloat 2) of
           PFloat distance \<Rightarrow>
             if 1 + distance = 0 then Inl ZeroDivisionError
             else semantic_score_dict h
                    (AList.update msg_id (1 / (1 + distance)) semantic_scores) rest
         | _ \<Rightarrow> Inl TypeError)"

text \<open>\<open>if d: m = max(d.values()); d = {k: v / m for k, v in d.items()}\<close>\<close>

definition normalize_scores :: "score_dict \<Rightarrow> py_error + score_dict" where
  "normalize_scores d =
     (case map snd d of
        [] \<Rightarrow> Inr d
      | v # vs \<Rightarrow>
          (let m = fold max vs v
           in if m = 0 then Inl ZeroDivisionError else Inr (map (\<lambda>(k, x). (k, x / m)) d)))"

text \<open>
  \<open>set(bm25_scores.keys()) | set(semantic_scores.keys())\<close> and the loop over it. The order
  in which Python iterates a set of strings depends on the hash seed of the process, so
  the order is a parameter: \<open>order\<close> lists the elements of the set built from a list, and
  \<open>set_order_ok\<close> says all it must satisfy.
\<close>

definition set_order_ok :: "(pyval list \<Rightarrow> pyval list) \<Rightarrow> bool" where
  "set_order_ok order = (\<forall>xs. distinct (order xs) \<and> set (order xs) = set xs)"

definition all_ids ::
  "(pyval list \<Rightarrow> pyval list) \<Rightarrow> score_dict \<Rightarrow> score_dict \<Rightarrow> pyval list" where
  "all_ids order bm25_scores semantic_scores =
     order (map fst bm25_scores @ map fst semantic_scores)"

definition combined_score :: "real \<Rightarrow> score_dict \<Rightarrow> score_dict \<Rightarrow> pyval \<Rightarrow> real" where
  "combined_score bm25_weight bm25_scores semantic_scores msg_id =
     bm25_weight * score_get bm25_scores msg_id
       + (1 - bm25_weight) * score_get semantic_scores msg_id"

definition combined_scores ::
  "(pyval list \<Rightarrow> pyval list) \<Rightarrow> real \<Rightarrow> score_dict \<Rightarrow> score_dict \<Rightarrow> score_dict" where
  "combined_scores order bm25_weight bm25_scores semantic_scores =
     map (\<lambda>msg_id. (msg_id, combined_score bm25_weight bm25_scores semantic_scores msg_id))
       (all_ids order bm25_scores semantic_scores)"

text \<open>
  \<open>sorted(keys, key=score, reverse=True)[:top_k]\<close>: Python's sort is stable, also with
  \<open>reverse=True\<close>, and so is the insertion sort \<open>sort_key\<close>.
\<close>

definition rank_ids :: "(pyval \<Rightarrow> real) \<Rightarrow> pyval list \<Rightarrow> int \<Rightarrow> pyval list" where
  "rank_ids score ids top_k = slice_to top_k (sort_key (\<lambda>x. - score x) ids)"

definition sorted_ids :: "score_dict \<Rightarrow> int \<Rightarrow> pyval list" where
  "sorted_ids combined top_k = rank_ids (score_get combined) (map fst combined) top_k"

fun find_semantic :: "heap \<Rightarrow> addr list \<Rightarrow> pyval \<Rightarrow> addr option" where
  "find_semantic h [] msg_id = None"
| "find_semantic h (a # rest) msg_id =
     (if dict_get (h ! a) ''id'' PNone = msg_id then Some a else find_semantic h rest msg_id)"

fun find_bm25 :: "bm25_result list \<Rightarrow> pyval \<Rightarrow> bm25_result option" where
  "find_bm25 [] msg_id = None"
| "find_bm25 (r # rest) msg_id =
     (if PStr (r_id r) = msg_id then Some r else find_bm25 rest msg_id)"

definition fallback_dict :: "bm25_result \<Rightarrow> pydict" where
  "fallback_dict r =
     [(''document'', PStr (r_document r)), (''user_name'', PStr (r_user_name r)),
      (''timestamp'', PStr (r_timestamp r)), (''id'', PStr (r_id r)),
      (''distance'', PFloat 0.5)]"

text \<open>
  The two inner loops that find \<open>msg_data\<close>. An empty dictionary is false in Python, so
  \<open>if not msg_data\<close> holds for \<open>None\<close> and for \<open>{}\<close>. The dictionary built from the
  lexical result is a new object.
\<close>

definition lookup_msg_data ::
  "addr list \<Rightarrow> bm25_result list \<Rightarrow> heap \<Rightarrow> pyval \<Rightarrow> addr option \<times> heap" where
  "lookup_msg_data semantic_results bm25_results h msg_id =
     (let msg_data = find_semantic h semantic_results msg_id
      in if (case msg_data of None \<Rightarrow> True | Some a \<Rightarrow> h ! a = [])
         then (case find_bm25 bm25_results msg_id of
                 None \<Rightarrow> (msg_data, h)
               | Some r \<Rightarrow> (Some (length h), h @ [fallback_dict r]))
         else (msg_data, h))"

definition write_scores :: "pydict \<Rightarrow> real \<Rightarrow> real \<Rightarrow> real \<Rightarrow> pydict" where
  "write_scores d hybrid b s =
     dict_set (dict_set (dict_set d ''hybrid_score'' (PFloat hybrid)) ''bm25_score'' (PFloat b))
       ''semantic_score'' (PFloat s)"

fun build_final ::
  "addr list \<Rightarrow> bm25_result list \<Rightarrow> score_dict \<Rightarrow> score_dict \<Rightarrow> score_dict \<Rightarrow> heap
     \<Rightarrow> pyval list \<Rightarrow> addr list \<times> heap" where
  "build_final semantic_results bm25_results combined bm25_scores semantic_scores h [] = ([], h)"
| "build_final semantic_results bm25_results combined bm25_scores semantic_scores h
     (msg_id # rest) =
     (case lookup_msg_data semantic_results bm25_results h msg_id of
        (None, h1) \<Rightarrow>
          build_final semantic_results bm25_results combined bm25_scores semantic_scores h1 rest
      | (Some a, h1) \<Rightarrow>
          if h1 ! a = [] then
            build_final semantic_results bm25_results combined bm25_scores semantic_scores h1 rest
          else
            (let h2 = h1[a := write_scores (h1 ! a) (score_get combined msg_id)
                                (score_get bm25_scores msg_id) (score_get semantic_scores msg_id)];
                 (results, h3) = build_final semantic_results bm25_results combined bm25_scores
                                   semantic_scores h2 rest
             in (a # results, h3)))"

text \<open>
  The first part of \<open>hybrid_search\<close>, up to the loop that fills \<open>combined_scores\<close>: it
  yields \<open>bm25_results\<close>, the two normalized score dictionaries and \<open>combined_scores\<close>.
\<close>

definition score_fusion ::
  "(pyval list \<Rightarrow> pyval list) \<Rightarrow> (real list \<Rightarrow> nat list) \<Rightarrow> retriever \<Rightarrow> heap \<Rightarrow> string
     \<Rightarrow> addr list \<Rightarrow> real
     \<Rightarrow> py_error + (bm25_result list \<times> score_dict \<times> score_dict \<times> score_dict)" where
  "score_fusion order argsort self h query semantic_results bm25_weight =
     (case search_bm25 argsort self query 100 True of
        Inl e \<Rightarrow> Inl e
      | Inr bm25_results \<Rightarrow>
          (case semantic_score_dict h [] semantic_results of
             Inl e \<Rightarrow> Inl e
           | Inr semantic_scores \<Rightarrow>
               (case normalize_scores (bm25_score_dict bm25_results) of
                  Inl e \<Rightarrow> Inl e
                | Inr bm25_scores \<Rightarrow>
                    (case normalize_scores semantic_scores of
                       Inl e \<Rightarrow> Inl e
                     | Inr semantic_scores' \<Rightarrow>
                         Inr (bm25_results, bm25_scores, semantic_scores',
                              combined_scores order bm25_weight bm25_scores semantic_scores')))))"

text \<open>
  \<open>hybrid_search\<close> returns the list of the result dictionaries (their addresses) and the
  store it leaves behind.
\<close>

definition hybrid_search ::
  "(pyval list \<Rightarrow> pyval list) \<Rightarrow> (real list \<Rightarrow> nat list) \<Rightarrow> retriever \<Rightarrow> heap \<Rightarrow> string
     \<Rightarrow> addr list \<Rightarrow> real \<Rightarrow> int \<Rightarrow> py_error + (addr list \<times> heap)" where
  "hybrid_search order argsort self h query semantic_results bm25_weight top_k =
     (case score_fusion order argsort self h query semantic_results bm25_weight of
        Inl e \<Rightarrow> Inl e
      | Inr (bm25_results, bm25_scores, semantic_scores, combined) \<Rightarrow>
          Inr (build_final semantic_results bm25_results combined bm25_scores semantic_scores h
                 (sorted_ids combined top_k)))"

section \<open>Confidence (\<open>LLMService._determine_confidence\<close>)\<close>

text \<open>\<open>sum(msg.get('distance', 2.0) for msg in context_messages)\<close>\<close>

fun sum_distances :: "real \<Rightarrow> pydict list \<Rightarrow> py_error + real" where
  "sum_distances acc [] = Inr acc"
| "sum_distances acc (msg # rest) =
     (case dict_get msg ''distance'' (PFloat 2) of
        PFloat d \<Rightarrow> sum_distances (acc + d) rest
      | _ \<Rightarrow> Inl TypeError)"

definition determine_confidence :: "pydict list \<Rightarrow> py_error + string" where
  "determine_confidence context_messages =
     (if context_messages = [] then Inr ''low''
      else case sum_distances 0 context_messages of
             Inl e \<Rightarrow> Inl e
           | Inr total_distance \<Rightarrow>
               (let avg_distance = total_distance / real (length context_messages)
                in if avg_distance < 1.3 \<and> 5 \<le> length context_messages then Inr ''high''
                   else if avg_distance < 1.6 \<and> 3 \<le> length context_messages then Inr ''medium''
                   else Inr ''low''))"

section \<open>The dense index (\<open>VectorStore\<close>)\<close>

text \<open>
  ChromaDB is a library: opening the client, opening the collection, counting and adding
  are parameters, and each of them but counting may raise.
\<close>

record metadata =
  md_user_id :: string
  md_user_name :: string
  md_timestamp :: string
  md_original_message :: string

type_synonym batch = "string list \<times> real list list \<times> string list \<times> metadata list"

record ('c, 'db) chroma =
  PersistentClient :: "py_error + 'c"
  get_or_create_collection :: "'c \<Rightarrow> py_error + 'db"
  coll_count :: "'db \<Rightarrow> nat"
  coll_add :: "'db \<Rightarrow> batch \<Rightarrow> py_error + 'db"

record ('c, 'db) vector_store =
  client :: "'c option"
  collection :: "'db option"

definition VectorStore :: "('c, 'db) vector_store" where
  "VectorStore = \<lparr>client = None, collection = None\<rparr>"

text \<open>A method returns the error it raised, if any, and the state it leaves.\<close>

definition initialize ::
  "('c, 'db) chroma \<Rightarrow> ('c, 'db) vector_store \<Rightarrow> py_error option \<times> ('c, 'db) vector_store" where
  "initialize lib self =
     (if client self \<noteq> None then (None, self)
      else case PersistentClient lib of
             Inl e \<Rightarrow> (Some e, self)
           | Inr c \<Rightarrow>
               (let self1 = self\<lparr>client := Some c\<rparr>
                in case get_or_create_collection lib c of
                     Inl e \<Rightarrow> (Some e, self1)
                   | Inr d \<Rightarrow> (None, self1\<lparr>collection := Some d\<rparr>)))"

definition slice :: "nat \<Rightarrow> nat \<Rightarrow> 'a list \<Rightarrow> 'a list" where
  "slice i j xs = take (j - i) (drop i xs)"

text \<open>The loop \<open>for i in range(0, len(messages), batch_size)\<close> over its start indices.\<close>

fun add_batches ::
  "('c, 'db) chroma \<Rightarrow> nat \<Rightarrow> batch \<Rightarrow> 'db \<Rightarrow> nat list \<Rightarrow> py_error option \<times> 'db" where
  "add_batches lib n data d [] = (None, d)"
| "add_batches lib n (ids, embeddings, documents, metadatas) d (i # rest) =
     (let end_idx = min (i + 100) n
      in case coll_add lib d (slice i end_idx ids, slice i end_idx embeddings,
                              slice i end_idx documents, slice i end_idx metadatas) of
           Inl e \<Rightarrow> (Some e, d)
         | Inr d' \<Rightarrow> add_batches lib n (ids, embeddings, documents, metadatas) d' rest)"

definition enriched_document :: "message \<Rightarrow> string" where
  "enriched_document msg =
     user_name msg @ '' ('' @ strftime_long (timestamp msg) @ ''): '' @ message msg"

definition metadata_of :: "message \<Rightarrow> metadata" where
  "metadata_of msg =
     \<lparr>md_user_id = user_id msg, md_user_name = user_name msg,
      md_timestamp = isoformat (timestamp msg), md_original_message = message msg\<rparr>"

definition VectorStore_index_messages ::
  "('c, 'db) chroma \<Rightarrow> ('c, 'db) vector_store \<Rightarrow> message list \<Rightarrow> real list list
     \<Rightarrow> py_error option \<times> ('c, 'db) vector_store" where
  "VectorStore_index_messages lib self msgs embeddings =
     (case (if collection self = None then initialize lib self else (None, self)) of
        (Some e, self1) \<Rightarrow> (Some e, self1)
      | (None, self1) \<Rightarrow>
          (case collection self1 of
             None \<Rightarrow> (Some AttributeError, self1)
           | Some d \<Rightarrow>
               if length msgs \<le> coll_count lib d then (None, self1)
               else
                 (let data = (map id' msgs, embeddings, map enriched_document msgs,
                              map metadata_of msgs);
                      starts = map (\<lambda>k. k * 100) [0..<(length msgs + 99) div 100];
                      (err, d') = add_batches lib (length msgs) data d starts
                  in (err, self1\<lparr>collection := Some d'\<rparr>))))"

definition get_count :: "('c, 'db) chroma \<Rightarrow> ('c, 'db) vector_store \<Rightarrow> nat" where
  "get_count lib self = (case collection self of None \<Rightarrow> 0 | Some d \<Rightarrow> coll_count lib d)"

section \<open>Notions the properties are stated with\<close>

text \<open>
  The distance a context message counts with, and the mean over a list of them; a
  message without a distance counts with \<open>2.0\<close>.
\<close>

definition numeric_distance :: "pydict \<Rightarrow> bool" where
  "numeric_distance msg =
     (case dict_get msg ''distance'' (PFloat 2) of PFloat d \<Rightarrow> True | _ \<Rightarrow> False)"

definition distance_of :: "pydict \<Rightarrow> real" where
  "distance_of msg = (case dict_get msg ''distance'' (PFloat 2) of PFloat d \<Rightarrow> d | _ \<Rightarrow> 2)"

definition mean_distance :: "pydict list \<Rightarrow> real" where
  "mean_distance context_messages =
     sum_list (map distance_of context_messages) / real (length context_messages)"

text \<open>Three context messages, the second without a distance.\<close>

definition ctx3 :: "pydict list" where
  "ctx3 = [[(''distance'', PFloat 1.2)], [(''user_name'', PStr ''Layla'')],
           [(''distance'', PFloat 0.5)]]"

text \<open>The synonyms the table has for a token, none when the token is not in it.\<close>

definition synonyms :: "string \<Rightarrow> string list" where
  "synonyms token = (case map_of QUERY_EXPANSIONS token of None \<Rightarrow> [] | Some syns \<Rightarrow> syns)"

text \<open>
  Two messages, and a ChromaDB whose collection is the list of its entries (an id and an
  embedding each) and already holds two of them.
\<close>

definition list_chroma :: "(unit, (string \<times> real list) list) chroma" where
  "list_chroma =
     \<lparr>PersistentClient = Inr (),
      get_or_create_collection = (\<lambda>c. Inr [(''1'', [0.5]), (''2'', [0.25])]),
      coll_count = length,
      coll_add = (\<lambda>d (ids, embeddings, documents, metadatas). Inr (d @ zip ids embeddings))\<rparr>"

definition msg1 :: message where
  "msg1 = \<lparr>id' = ''1'', user_id = ''u1'', user_name = ''Layla'',
           timestamp = Datetime ''2024-01-01T00:00:00'' ''January 01, 2024'',
           message = ''Trip to London''\<rparr>"

definition msg2 :: message where
  "msg2 = \<lparr>id' = ''2'', user_id = ''u2'', user_name = ''Omar'',
           timestamp = Datetime ''2024-01-02T00:00:00'' ''January 02, 2024'',
           message = ''Dinner in London''\<rparr>"

definition ready_store :: "(unit, (string \<times> real list) list) vector_store" where
  "ready_store = \<lparr>client = Some (), collection = Some [(''1'', [0.5]), (''2'', [0.25])]\<rparr>"

text \<open>
  \<open>positions\<close>: the results are the documents at the corpus positions \<open>idxs\<close>, in this
  order, each with its own score.
\<close>

definition positions :: "retriever \<Rightarrow> string \<Rightarrow> bool \<Rightarrow> nat list \<Rightarrow> bm25_result list \<Rightarrow> bool" where
  "positions self query use_expansion idxs rs =
     (case (bm25 self, messages self) of
        (Some get_scores, Some ms) \<Rightarrow>
          (let scores = get_scores (if use_expansion then expand_query query else tokenize query)
           in list_all (\<lambda>i. i < length ms \<and> i < length scores) idxs
              \<and> rs = map (\<lambda>i. mk_result (ms ! i) (scores ! i)) idxs)
      | _ \<Rightarrow> False)"

text \<open>
  The scores of a query as \<open>search_bm25\<close> computes them, and the claim on ties: results
  with equal scores stand in the order of their messages in the corpus.
\<close>

definition query_scores :: "retriever \<Rightarrow> string \<Rightarrow> bool \<Rightarrow> real list" where
  "query_scores self query use_expansion =
     (case bm25 self of
        None \<Rightarrow> []
      | Some get_scores \<Rightarrow> get_scores (if use_expansion then expand_query query else tokenize query))"

fun position_in :: "'a list \<Rightarrow> 'a \<Rightarrow> nat" where
  "position_in [] x = 0"
| "position_in (y # ys) x = (if x = y then 0 else Suc (position_in ys x))"

definition ties_in_corpus_order :: "message list \<Rightarrow> bm25_result list \<Rightarrow> bool" where
  "ties_in_corpus_order msgs rs =
     sorted_wrt (\<lambda>r r'. r_bm25_score r = r_bm25_score r' \<longrightarrow>
                   position_in msgs (r_message r) < position_in msgs (r_message r')) rs"

text \<open>
  \<open>BM25Okapi\<close> as the library \<open>rank_bm25\<close> computes it, with its defaults
  \<open>k1 = 1.5\<close>, \<open>b = 0.75\<close> and \<open>epsilon = 0.25\<close>: the document frequency \<open>nd\<close> of a word,
  the inverse document frequency \<open>log(N - n + 0.5) - log(n + 0.5)\<close>, replaced by
  \<open>epsilon * average_idf\<close> when it is negative, and the score of a document, the sum over
  the query tokens. The constructor divides by the size of the corpus and by the size of
  the vocabulary, so it raises when one of them is 0. The theorems take the index as a
  parameter; this one is the index of the examples.
\<close>

definition doc_count :: "string list list \<Rightarrow> string \<Rightarrow> nat" where
  "doc_count corpus word = length (filter (\<lambda>document. word \<in> set document) corpus)"

definition vocabulary :: "string list list \<Rightarrow> string list" where
  "vocabulary corpus = remdups (concat corpus)"

definition raw_idf :: "string list list \<Rightarrow> string \<Rightarrow> real" where
  "raw_idf corpus word =
     ln (real (length corpus) - real (doc_count corpus word) + 0.5)
       - ln (real (doc_count corpus word) + 0.5)"

definition average_idf :: "string list list \<Rightarrow> real" where
  "average_idf corpus =
     sum_list (map (raw_idf corpus) (vocabulary corpus)) / real (length (vocabulary corpus))"

definition idf :: "string list list \<Rightarrow> string \<Rightarrow> real" where
  "idf corpus word =
     (if word \<notin> set (vocabulary corpus) then 0
      else if raw_idf corpus word < 0 then 0.25 * average_idf corpus
      else raw_idf corpus word)"

definition avgdl :: "string list list \<Rightarrow> real" where
  "avgdl corpus = real (sum_list (map length corpus)) / real (length corpus)"

definition term_score :: "string list list \<Rightarrow> string \<Rightarrow> string list \<Rightarrow> real" where
  "term_score corpus q document =
     (let q_freq = real (count_list document q)
      in idf corpus q *
           (q_freq * (1.5 + 1)
              / (q_freq + 1.5 * (1 - 0.75 + 0.75 * real (length document) / avgdl corpus))))"

definition okapi_scores :: "string list list \<Rightarrow> scorer" where
  "okapi_scores corpus query =
     map (\<lambda>document. sum_list (map (\<lambda>q. term_score corpus q document) query)) corpus"

definition rank_bm25 :: "string list list \<Rightarrow> py_error + scorer" where
  "rank_bm25 corpus =
     (if corpus = [] \<or> vocabulary corpus = [] then Inl ZeroDivisionError
      else Inr (okapi_scores corpus))"

text \<open>
  Five messages, the first two of the same length and both with the token \<open>london\<close>,
  which no other message has: BM25 gives these two the same positive score. \<open>indexed5\<close>
  is the retriever after \<open>index_messages\<close> on them.
\<close>

definition msg3 :: message where
  "msg3 = \<lparr>id' = ''3'', user_id = ''u3'', user_name = ''Amira'',
           timestamp = Datetime ''2024-01-03T00:00:00'' ''January 03, 2024'',
           message = ''A new car''\<rparr>"

definition msg4 :: message where
  "msg4 = \<lparr>id' = ''4'', user_id = ''u4'', user_name = ''Hans'',
           timestamp = Datetime ''2024-01-04T00:00:00'' ''January 04, 2024'',
           message = ''Book a table''\<rparr>"

definition msg5 :: message where
  "msg5 = \<lparr>id' = ''5'', user_id = ''u5'', user_name = ''Vikram'',
           timestamp = Datetime ''2024-01-05T00:00:00'' ''January 05, 2024'',
           message = ''Call me back''\<rparr>"

definition corpus5 :: "message list" where
  "corpus5 = [msg1, msg2, msg3, msg4, msg5]"

definition tokens5 :: "string list list" where
  "tokens5 = [[''layla'', ''trip'', ''to'', ''london''], [''omar'', ''dinner'', ''in'', ''london''],
              [''amira'', ''a'', ''new'', ''car''], [''hans'', ''book'', ''a'', ''table''],
              [''vikram'', ''call'', ''me'', ''back'']]"

definition tie_score :: real where
  "tie_score = ln (7 / 2) - ln (5 / 2)"

definition indexed5 :: retriever where
  "indexed5 = \<lparr>bm25 = Some (okapi_scores tokens5), messages = Some corpus5,
                tokenized_corpus = Some tokens5\<rparr>"

text \<open>
  Score dictionaries whose values are all positive, or all in \<open>(0, 1]\<close>; a dense result
  whose distance, \<open>2.0\<close> when it has none, is a number that is not negative; and a
  result dictionary whose \<open>hybrid_score\<close> is a number in \<open>[0, 1]\<close>.
\<close>

definition unit_scores :: "score_dict \<Rightarrow> bool" where
  "unit_scores d = list_all (\<lambda>(k, v). 0 < v \<and> v \<le> 1) d"

definition positive_scores :: "score_dict \<Rightarrow> bool" where
  "positive_scores d = list_all (\<lambda>(k, v). 0 < v) d"

definition nonneg_distance :: "pydict \<Rightarrow> bool" where
  "nonneg_distance r =
     (case dict_get r ''distance'' (PFloat 2) of PFloat d \<Rightarrow> 0 \<le> d | _ \<Rightarrow> False)"

definition unit_hybrid_score :: "pydict \<Rightarrow> bool" where
  "unit_hybrid_score d =
     (case map_of d ''hybrid_score'' of Some (PFloat x) \<Rightarrow> 0 \<le> x \<and> x \<le> 1 | _ \<Rightarrow> False)"

text \<open>The store of two dense results: one that the lexical search finds too, one it does not.\<close>

definition dense_heap :: heap where
  "dense_heap =
     [[(''id'', PStr ''2''), (''document'', PStr ''Omar (January 02, 2024): Dinner in London''),
       (''user_name'', PStr ''Omar''), (''timestamp'', PStr ''2024-01-02T00:00:00''),
       (''distance'', PFloat 0.2)],
      [(''id'', PStr ''3''), (''document'', PStr ''Amira (January 03, 2024): A new car''),
       (''user_name'', PStr ''Amira''), (''timestamp'', PStr ''2024-01-03T00:00:00''),
       (''distance'', PFloat 0.8)]]"

text \<open>
  The id of a result dictionary, and a dictionary with the three scores of an id written
  into it as the last loop of \<open>hybrid_search\<close> does.
\<close>

definition id_of :: "pydict \<Rightarrow> pyval" where
  "id_of r = dict_get r ''id'' PNone"

definition scored :: "score_dict \<Rightarrow> score_dict \<Rightarrow> score_dict \<Rightarrow> pydict \<Rightarrow> pyval \<Rightarrow> pydict" where
  "scored combined bm25_scores semantic_scores d msg_id =
     write_scores d (score_get combined msg_id) (score_get bm25_scores msg_id)
       (score_get semantic_scores msg_id)"

text \<open>
  \<open>result_for\<close>: what the last loop leaves for one id at the address \<open>b\<close> it returns. With
  a dense result of this id, \<open>b\<close> is its address and holds its dictionary with the scores
  written; otherwise \<open>b\<close> is a new address that holds the fallback dictionary of the lexical
  result, with the scores written.
\<close>

definition result_for ::
  "addr list \<Rightarrow> bm25_result list \<Rightarrow> score_dict \<Rightarrow> score_dict \<Rightarrow> score_dict \<Rightarrow> heap \<Rightarrow> heap
     \<Rightarrow> pyval \<Rightarrow> addr \<Rightarrow> bool" where
  "result_for semantic_results bm25_results combined bm25_scores semantic_scores h h' msg_id b =
     (case find_semantic h semantic_results msg_id of
        Some a \<Rightarrow>
          b = a \<and> h' ! b = scored combined bm25_scores semantic_scores (h ! a) msg_id
      | None \<Rightarrow>
          (case find_bm25 bm25_results msg_id of
             Some r \<Rightarrow>
               length h \<le> b \<and> b < length h'
               \<and> h' ! b = scored combined bm25_scores semantic_scores (fallback_dict r) msg_id
           | None \<Rightarrow> False))"

text \<open>
  The display fields of a dictionary; where they come from (\<open>recovered\<close>); the score an id
  has in a score dictionary, 0 when it is not a key (\<open>contribution\<close>); and the three scores a
  returned dictionary carries (\<open>fused_with\<close>).
\<close>

definition display_fields :: "pydict \<Rightarrow> pyval \<times> pyval \<times> pyval" where
  "display_fields d =
     (dict_get d ''document'' PNone, dict_get d ''user_name'' PNone, dict_get d ''timestamp'' PNone)"

definition recovered ::
  "addr list \<Rightarrow> bm25_result list \<Rightarrow> heap \<Rightarrow> heap \<Rightarrow> pyval \<Rightarrow> addr \<Rightarrow> bool" where
  "recovered semantic_results bm25_results h h' msg_id b =
     (case find_semantic h semantic_results msg_id of
        Some a \<Rightarrow> b = a \<and> display_fields (h' ! b) = display_fields (h ! a)
      | None \<Rightarrow>
          (case find_bm25 bm25_results msg_id of
             Some r \<Rightarrow>
               length h \<le> b
               \<and> display_fields (h' ! b)
                     = (PStr (r_document r), PStr (r_user_name r), PStr (r_timestamp r))
               \<and> dict_get (h' ! b) ''distance'' PNone = PFloat 0.5
           | None \<Rightarrow> False))"

definition contribution :: "score_dict \<Rightarrow> pyval \<Rightarrow> real" where
  "contribution d msg_id = (if msg_id \<in> fst ` set d then score_get d msg_id else 0)"

definition fused_with ::
  "real \<Rightarrow> score_dict \<Rightarrow> score_dict \<Rightarrow> heap \<Rightarrow> pyval \<Rightarrow> addr \<Rightarrow> bool" where
  "fused_with bm25_weight bm25_scores semantic_scores h' msg_id b =
     (dict_get (h' ! b) ''hybrid_score'' PNone
        = PFloat (bm25_weight * contribution bm25_scores msg_id
                  + (1 - bm25_weight) * contribution semantic_scores msg_id)
      \<and> dict_get (h' ! b) ''bm25_score'' PNone = PFloat (contribution bm25_scores msg_id)
      \<and> dict_get (h' ! b) ''semantic_score'' PNone = PFloat (contribution semantic_scores msg_id))"

text \<open>
  What the first part of \<open>hybrid_search\<close> computes for the query \<open>london\<close>, the five
  indexed messages and the store of the two dense results, when the set of ids is iterated
  in the order \<open>remdups\<close> lists it.
\<close>

definition lexical_example :: "bm25_result list" where
  "lexical_example = [mk_result msg2 tie_score, mk_result msg1 tie_score]"

definition bm25_scores_example :: score_dict where
  "bm25_scores_example = [(PStr ''2'', 1), (PStr ''1'', 1)]"

definition semantic_scores_example :: score_dict where
  "semantic_scores_example = [(PStr ''2'', 1), (PStr ''3'', 2 / 3)]"

definition fusion_example :: "real \<Rightarrow> bm25_result list \<times> score_dict \<times> score_dict \<times> score_dict" where
  "fusion_example w =
     (lexical_example, bm25_scores_example, semantic_scores_example,
      combined_scores remdups w bm25_scores_example semantic_scores_example)"

text \<open>The \<open>hybrid_score\<close> a dictionary carries, 0 when it carries none.\<close>

definition hybrid_score_of :: "pydict \<Rightarrow> real" where
  "hybrid_score_of d = (case dict_get d ''hybrid_score'' PNone of PFloat x \<Rightarrow> x | _ \<Rightarrow> 0)"

section \<open>Tokenization: proofs\<close>

lemma code_point_lower_char:
  "code_point c < 128 \<Longrightarrow> code_point (lower_char c) < 128"
  by (auto simp: lower_char_def code_point_def Let_def)

lemma is_word_ascii: "code_point c < 128 \<Longrightarrow> is_word c = is_ascii_word c"
  by (auto simp: is_word_def Let_def)

lemma sub_punct_ascii:
  "code_point c < 128 \<Longrightarrow> sub_punct (lower_char c) = spec_sub_punct (lower_char c)"
  by (simp add: sub_punct_def spec_sub_punct_def is_word_ascii code_point_lower_char)

text \<open>
  C6, as the specification words it, fails: \<open>\w\<close> on a Python \<open>str\<close> is not
  \<open>[A-Za-z0-9_]\<close>, it also accepts the letters and digits beyond ASCII. The letter
  U+00E9 (e with an acute accent) is outside \<open>[A-Za-z0-9_]\<close> and is not whitespace, yet it is kept
  in the token and not replaced by a space.
\<close>

theorem tokenize_latin_letter_kept:
  "tokenize (''caf'' @ [CHR 0xE9]) = [''caf'' @ [CHR 0xE9]]
   \<and> spec_tokenize (''caf'' @ [CHR 0xE9]) = [''caf'']
   \<and> tokenize (''caf'' @ [CHR 0xE9]) \<noteq> spec_tokenize (''caf'' @ [CHR 0xE9])"
  by code_simp

text \<open>
  C6, amended: on every input whose characters are all ASCII, \<open>_tokenize\<close> lowercases the
  input, replaces every character outside \<open>[A-Za-z0-9_]\<close> and whitespace with a space, and
  splits on whitespace; tokenizing \<open>London?\<close> and \<open>london\<close> both yield the single-token
  list \<open>[london]\<close>.
\<close>

theorem tokenize_ascii:
  "((\<forall>c \<in> set text. code_point c < 128) \<longrightarrow> tokenize text = spec_tokenize text)
   \<and> tokenize ''London?'' = [''london''] \<and> tokenize ''london'' = [''london'']"
proof -
  have "tokenize ''London?'' = [''london'']" and "tokenize ''london'' = [''london'']"
    by code_simp+
  then show ?thesis
    by (simp add: tokenize_def spec_tokenize_def sub_punct_ascii cong: map_cong)
qed

theorem tokenize_ascii_witness:
  "list_all (\<lambda>c. code_point c < 128) ''Layla, when?''
   \<and> tokenize ''Layla, when?'' = spec_tokenize ''Layla, when?''
   \<and> spec_tokenize ''Layla, when?'' = [''layla'', ''when'']"
proof -
  have ascii: "list_all (\<lambda>c. code_point c < 128) ''Layla, when?''"
    by code_simp
  then have "\<forall>c \<in> set ''Layla, when?''. code_point c < 128"
    unfolding list_all_iff .
  with tokenize_ascii [of "''Layla, when?''"]
  have "tokenize ''Layla, when?'' = spec_tokenize ''Layla, when?''"
    by blast
  moreover have "spec_tokenize ''Layla, when?'' = [''layla'', ''when'']"
    by code_simp
  ultimately show ?thesis
    using ascii by blast
qed

section \<open>The lexical index: proofs\<close>

text \<open>
  C9: on a retriever as its constructor leaves it, before any call to \<open>index_messages\<close>,
  \<open>search_bm25\<close> returns the empty list and raises nothing, for every query, \<open>top_k\<close>
  and expansion flag. The method assigns no attribute, so it is a function of the state
  and leaves it as it was; the retriever is still not indexed.
\<close>

theorem search_bm25_not_indexed:
  "search_bm25 argsort HybridRetriever query top_k use_expansion = Inr []
   \<and> \<not> is_indexed HybridRetriever"
  by (simp add: search_bm25_def HybridRetriever_def is_indexed_def)

lemma set_expand_tokens:
  "set (expand_tokens expanded toks) = set expanded \<union> set toks \<union> (\<Union>t \<in> set toks. set (synonyms t))"
  by (induction toks arbitrary: expanded) (auto simp: synonyms_def)

lemma set_expand_query:
  "set (expand_query query) = set (tokenize query) \<union> (\<Union>t \<in> set (tokenize query). set (synonyms t))"
  by (simp add: expand_query_def list_of_pyset_def set_expand_tokens)

lemma table_has_key: "map_of QUERY_EXPANSIONS t = Some syns \<Longrightarrow> t \<in> set syns"
  by (auto simp: QUERY_EXPANSIONS_def split: if_splits)

text \<open>
  C5, as stated, fails where the query repeats a token: the tokenization of \<open>a a\<close> has
  two tokens and the expanded collection has one.
\<close>

theorem expand_query_shorter:
  "tokenize ''a a'' = [''a'', ''a''] \<and> expand_query ''a a'' = [''a'']
   \<and> length (expand_query ''a a'') < length (tokenize ''a a'')"
  by code_simp

text \<open>
  C5, amended: for every query, the expanded token collection contains every token of the
  original tokenization, so it has at least as many tokens as the original tokenization
  has distinct ones; it contains no duplicate; and for every original token that the
  synonym table has, it contains all the synonyms of that entry, the token itself among
  them.
\<close>

theorem expand_query_superset:
  "set (tokenize query) \<subseteq> set (expand_query query)
   \<and> card (set (tokenize query)) \<le> length (expand_query query)
   \<and> distinct (expand_query query)
   \<and> (\<forall>t \<in> set (tokenize query). \<forall>syns. map_of QUERY_EXPANSIONS t = Some syns \<longrightarrow>
         t \<in> set syns \<and> set syns \<subseteq> set (expand_query query))"
proof -
  have sub: "set (tokenize query) \<subseteq> set (expand_query query)"
    by (auto simp: set_expand_query)
  have dist: "distinct (expand_query query)"
    by (simp add: expand_query_def list_of_pyset_def)
  have "card (set (tokenize query)) \<le> card (set (expand_query query))"
    using sub by (simp add: card_mono)
  also have "\<dots> = length (expand_query query)"
    using dist by (simp add: distinct_card)
  finally have len: "card (set (tokenize query)) \<le> length (expand_query query)" .
  have syn: "\<forall>t \<in> set (tokenize query). \<forall>syns. map_of QUERY_EXPANSIONS t = Some syns \<longrightarrow>
         t \<in> set syns \<and> set syns \<subseteq> set (expand_query query)"
    by (auto simp: set_expand_query synonyms_def table_has_key)
  from sub len dist syn show ?thesis by blast
qed

theorem expand_query_superset_witness:
  "tokenize ''My trip?'' = [''my'', ''trip'']
   \<and> map_of QUERY_EXPANSIONS ''trip'' = Some [''trip'', ''travel'', ''journey'', ''visit'', ''stay'']
   \<and> list_all (\<lambda>t. t \<in> set (expand_query ''My trip?'')) [''trip'', ''travel'', ''journey'', ''visit'', ''stay'']
   \<and> length (expand_query ''My trip?'') = 6"
proof -
  have tok: "tokenize ''My trip?'' = [''my'', ''trip'']"
    by code_simp
  have tab: "map_of QUERY_EXPANSIONS ''trip'' = Some [''trip'', ''travel'', ''journey'', ''visit'', ''stay'']"
    by (simp add: QUERY_EXPANSIONS_def)
  have "''trip'' \<in> set (tokenize ''My trip?'')"
    by (simp add: tok)
  with expand_query_superset [of "''My trip?''"] tab
  have "set [''trip'', ''travel'', ''journey'', ''visit'', ''stay''] \<subseteq> set (expand_query ''My trip?'')"
    by blast
  then have "list_all (\<lambda>t. t \<in> set (expand_query ''My trip?'')) [''trip'', ''travel'', ''journey'', ''visit'', ''stay'']"
    by (simp add: list_all_iff subset_iff)
  moreover have "length (expand_query ''My trip?'') = 6"
    by code_simp
  ultimately show ?thesis
    using tok tab by blast
qed

lemma argsort_stable_ok: "argsort_ok argsort_stable"
  by (simp add: argsort_ok_def argsort_stable_def)

lemma build_results_filter:
  "\<forall>i \<in> set idxs. i < length scores \<and> i < length ms \<Longrightarrow>
   build_results (Some ms) scores idxs =
     Inr (map (\<lambda>i. mk_result (ms ! i) (scores ! i)) (filter (\<lambda>i. 0 < scores ! i) idxs))"
  by (induction idxs) auto

lemma build_results_positive:
  "build_results msgs scores idxs = Inr rs \<Longrightarrow> \<forall>r \<in> set rs. 0 < r_bm25_score r"
  by (induction idxs arbitrary: rs)
     (auto simp: mk_result_def split: if_splits option.splits sum.splits)

lemma search_bm25_positive:
  "search_bm25 argsort self query top_k use_expansion = Inr rs \<Longrightarrow> \<forall>r \<in> set rs. 0 < r_bm25_score r"
  by (auto simp: search_bm25_def Let_def split: option.splits dest: build_results_positive)

lemma set_slice_to: "set (slice_to k xs) \<subseteq> set xs"
  by (auto simp: slice_to_def dest: in_set_takeD)

lemma length_slice_to: "0 \<le> k \<Longrightarrow> length (slice_to k xs) \<le> nat k"
  by (simp add: slice_to_def)

lemma sorted_wrt_slice_to: "sorted_wrt P xs \<Longrightarrow> sorted_wrt P (slice_to k xs)"
  by (simp add: slice_to_def sorted_wrt_take)

lemma sorted_wrt_rev_argsort:
  assumes "argsort_ok argsort"
  shows "sorted_wrt (\<lambda>i j. scores ! j \<le> scores ! i) (rev (argsort scores))"
proof -
  from assms have "sorted (map (\<lambda>i. scores ! i) (argsort scores))"
    by (simp add: argsort_ok_def)
  then have "sorted_wrt (\<lambda>i j. scores ! i \<le> scores ! j) (argsort scores)"
    by (simp add: sorted_map)
  then show ?thesis
    by (simp add: sorted_wrt_rev)
qed

lemma index_messages_ok:
  assumes "index_messages BM25Okapi self0 msgs = (None, self)" and "scorer_ok BM25Okapi"
  shows "\<exists>sc. bm25 self = Some sc \<and> messages self = Some msgs \<and> (\<forall>q. length (sc q) = length msgs)"
  using assms
  by (auto simp: index_messages_def scorer_ok_def Let_def split: sum.splits)

lemma filter_mem_take:
  assumes "distinct xs"
  shows "filter (\<lambda>i. i \<in> set (filter P (take m xs))) xs = filter P (take m xs)"
proof -
  let ?Q = "\<lambda>i. i \<in> set (filter P (take m xs))"
  have disj: "set (take m xs) \<inter> set (drop m xs) = {}"
    using assms distinct_append [of "take m xs" "drop m xs"] by simp
  have inside: "filter ?Q (take m xs) = filter P (take m xs)"
    by (rule filter_cong) auto
  have outside: "filter ?Q (drop m xs) = []"
    using disj by (auto simp: filter_empty_conv)
  have "filter ?Q xs = filter ?Q (take m xs @ drop m xs)"
    by (simp only: append_take_drop_id)
  also have "\<dots> = filter ?Q (take m xs) @ filter ?Q (drop m xs)"
    by (simp only: filter_append)
  also have "\<dots> = filter P (take m xs)"
    by (simp only: inside outside append_Nil2)
  finally show ?thesis .
qed

lemma take_dominates:
  assumes "sorted_wrt R xs" and "a \<in> set (take m xs)" and "b \<in> set (drop m xs)"
  shows "R a b"
proof -
  have "sorted_wrt R (take m xs @ drop m xs)" using assms(1) by simp
  with assms(2,3) show ?thesis
    unfolding sorted_wrt_append by blast
qed

lemma outside_take:
  assumes "i \<in> set xs" and "i \<notin> set (take m xs)"
  shows "i \<in> set (drop m xs) \<and> length (take m xs) = m"
proof -
  have "set xs = set (take m xs) \<union> set (drop m xs)"
    using set_append [of "take m xs" "drop m xs"] by simp
  with assms have d: "i \<in> set (drop m xs)" by blast
  then have "drop m xs \<noteq> []" by auto
  then have "m < length xs" by simp
  with d show ?thesis by simp
qed

lemma tokens5_eq: "map (\<lambda>msg. tokenize (user_name msg @ '' '' @ message msg)) corpus5 = tokens5"
  by code_simp

lemma index_corpus5: "index_messages rank_bm25 HybridRetriever corpus5 = (None, indexed5)"
  unfolding index_messages_def Let_def tokens5_eq
  by (simp add: rank_bm25_def indexed5_def HybridRetriever_def tokens5_def vocabulary_def)

lemma tie_score_pos: "0 < tie_score"
  by (simp add: tie_score_def)

lemma expand_london: "expand_query ''london'' = [''london'']"
  by code_simp

lemma doc_count_london: "doc_count tokens5 ''london'' = 2"
  by (simp add: doc_count_def tokens5_def)

lemma idf_london: "idf tokens5 ''london'' = tie_score"
  by (simp add: idf_def raw_idf_def doc_count_london tie_score_def)
     (simp add: tokens5_def vocabulary_def)

lemma avgdl5: "avgdl tokens5 = 4"
  by (simp add: avgdl_def tokens5_def)

lemma scores_london: "okapi_scores tokens5 [''london''] = [tie_score, tie_score, 0, 0, 0]"
  by (simp add: okapi_scores_def term_score_def idf_london avgdl5) (simp add: tokens5_def)

lemma argsort_london: "argsort_stable [tie_score, tie_score, 0, 0, 0] = [2, 3, 4, 0, 1]"
  using tie_score_pos by (simp add: argsort_stable_def upt_rec [of 0] upt_rec [of 1] upt_rec [of 2] upt_rec [of 3] upt_rec [of 4])

lemma search_london:
  "search_bm25 argsort_stable indexed5 ''london'' 100 True
     = Inr [mk_result msg2 tie_score, mk_result msg1 tie_score]"
  using tie_score_pos
  by (simp add: search_bm25_def indexed5_def expand_london scores_london argsort_london
        slice_to_def corpus5_def)

lemma scorer_ok_rank_bm25: "scorer_ok rank_bm25"
  by (auto simp: scorer_ok_def rank_bm25_def okapi_scores_def split: if_splits)

lemma query_scores_london: "query_scores indexed5 ''london'' True = [tie_score, tie_score, 0, 0, 0]"
  by (simp add: query_scores_def indexed5_def expand_london scores_london)

lemma ties_london:
  "\<not> ties_in_corpus_order corpus5 [mk_result msg2 tie_score, mk_result msg1 tie_score]"
  by (simp add: ties_in_corpus_order_def mk_result_def corpus5_def msg1_def msg2_def)

text \<open>
  C2, as stated, fails on ties. The code reverses an ascending argsort and nothing in it
  restores the corpus order of equal scores, so ties come out in the reverse of the order
  argsort lists them, an order NumPy does not promise. On the five indexed messages the
  query \<open>london\<close> gives the first two the same positive BM25 score; with the stable
  argsort, which is one the library's contract admits, the second message comes out before
  the first. So the code does not ensure the corpus order of ties.
\<close>

theorem search_bm25_ties_not_corpus_order:
  "index_messages rank_bm25 HybridRetriever corpus5 = (None, indexed5)
   \<and> argsort_ok argsort_stable
   \<and> 0 < tie_score
   \<and> search_bm25 argsort_stable indexed5 ''london'' 100 True
       = Inr [mk_result msg2 tie_score, mk_result msg1 tie_score]
   \<and> \<not> ties_in_corpus_order corpus5 [mk_result msg2 tie_score, mk_result msg1 tie_score]
   \<and> \<not> (\<forall>argsort. argsort_ok argsort \<longrightarrow>
            (\<exists>rs. search_bm25 argsort indexed5 ''london'' 100 True = Inr rs
                  \<and> ties_in_corpus_order corpus5 rs))"
proof -
  have "\<not> (\<forall>argsort. argsort_ok argsort \<longrightarrow>
            (\<exists>rs. search_bm25 argsort indexed5 ''london'' 100 True = Inr rs
                  \<and> ties_in_corpus_order corpus5 rs))"
  proof
    assume "\<forall>argsort. argsort_ok argsort \<longrightarrow>
            (\<exists>rs. search_bm25 argsort indexed5 ''london'' 100 True = Inr rs
                  \<and> ties_in_corpus_order corpus5 rs)"
    with argsort_stable_ok obtain rs where
      "search_bm25 argsort_stable indexed5 ''london'' 100 True = Inr rs"
      "ties_in_corpus_order corpus5 rs"
      by blast
    with search_london ties_london show False by simp
  qed
  with index_corpus5 argsort_stable_ok tie_score_pos search_london ties_london
  show ?thesis by (intro conjI)
qed

text \<open>
  C2, amended: for every corpus indexed without error, every query and every
  \<open>top_k \<ge> 0\<close>, \<open>search_bm25\<close> returns, without raising, only documents whose score is
  strictly greater than 0, each once and with its own score, sorted by descending score,
  and at most \<open>top_k\<close> of them; a document with a positive score is left out only when
  \<open>top_k\<close> documents are returned and none of them scores lower. Documents with equal
  scores appear in the reverse of the order in which argsort lists them, whatever that
  order is: the corpus order of ties is not ensured.
\<close>

theorem search_bm25_sorted:
  assumes "argsort_ok argsort" and "scorer_ok BM25Okapi"
    and "index_messages BM25Okapi self0 msgs = (None, self)"
    and "0 \<le> top_k"
  shows "\<exists>rs idxs. search_bm25 argsort self query top_k use_expansion = Inr rs
           \<and> (\<forall>r \<in> set rs. 0 < r_bm25_score r)
           \<and> sorted_wrt (\<lambda>r r'. r_bm25_score r' \<le> r_bm25_score r) rs
           \<and> length rs \<le> nat top_k
           \<and> distinct idxs \<and> positions self query use_expansion idxs rs
           \<and> (\<forall>i < length msgs.
                 0 < query_scores self query use_expansion ! i \<and> i \<notin> set idxs \<longrightarrow>
                   length rs = nat top_k
                   \<and> (\<forall>r \<in> set rs. query_scores self query use_expansion ! i \<le> r_bm25_score r))
           \<and> idxs = filter (\<lambda>i. i \<in> set idxs)
                       (rev (argsort (query_scores self query use_expansion)))"
proof -
  from index_messages_ok [OF assms(3,2)] obtain sc where
    sc: "bm25 self = Some sc" "messages self = Some msgs" "\<And>q. length (sc q) = length msgs"
    by blast
  define scores where "scores = sc (if use_expansion then expand_query query else tokenize query)"
  define xs where "xs = rev (argsort scores)"
  define top where "top = take (nat top_k) xs"
  define idxs where "idxs = filter (\<lambda>i. 0 < scores ! i) top"
  define rs where "rs = map (\<lambda>i. mk_result (msgs ! i) (scores ! i)) idxs"
  have qs: "query_scores self query use_expansion = scores"
    by (simp add: query_scores_def sc scores_def)
  have len: "length scores = length msgs"
    by (simp add: scores_def sc)
  have perm: "distinct xs" "set xs = {0..<length scores}"
    using assms(1) by (simp_all add: argsort_ok_def xs_def)
  have xs_sorted: "sorted_wrt (\<lambda>i j. scores ! j \<le> scores ! i) xs"
    unfolding xs_def by (rule sorted_wrt_rev_argsort [OF assms(1)])
  have top_eq: "slice_to top_k (rev (argsort scores)) = top"
    using assms(4) by (simp add: slice_to_def top_def xs_def)
  have top_set: "set top \<subseteq> {0..<length scores}"
    using set_take_subset [of "nat top_k" xs] perm by (simp add: top_def)
  have top_dist: "distinct top"
    using perm by (simp add: top_def)
  have top_sorted: "sorted_wrt (\<lambda>i j. scores ! j \<le> scores ! i) top"
    unfolding top_def using xs_sorted by (rule sorted_wrt_take)
  have "search_bm25 argsort self query top_k use_expansion = build_results (Some msgs) scores top"
    by (simp add: search_bm25_def sc scores_def [symmetric] top_eq Let_def)
  also have "\<dots> = Inr rs"
    unfolding rs_def idxs_def using top_set len by (intro build_results_filter) auto
  finally have res: "search_bm25 argsort self query top_k use_expansion = Inr rs" .
  have pos: "\<forall>r \<in> set rs. 0 < r_bm25_score r"
    using res by (rule search_bm25_positive)
  have "sorted_wrt (\<lambda>i j. scores ! j \<le> scores ! i) idxs"
    unfolding idxs_def using top_sorted by (rule sorted_wrt_filter)
  then have srt: "sorted_wrt (\<lambda>r r'. r_bm25_score r' \<le> r_bm25_score r) rs"
    by (simp add: rs_def sorted_wrt_map mk_result_def)
  have "length rs \<le> length top"
    by (simp add: rs_def idxs_def)
  also have "\<dots> \<le> nat top_k"
    by (simp add: top_def)
  finally have bound: "length rs \<le> nat top_k" .
  have dist: "distinct idxs"
    using top_dist by (simp add: idxs_def)
  have "list_all (\<lambda>i. i < length msgs \<and> i < length scores) idxs"
    using top_set len by (auto simp: list_all_iff idxs_def)
  then have posn: "positions self query use_expansion idxs rs"
    by (simp add: positions_def sc scores_def [symmetric] rs_def Let_def)
  have complete: "length rs = nat top_k \<and> (\<forall>r \<in> set rs. scores ! i \<le> r_bm25_score r)"
    if i: "i < length msgs" "0 < scores ! i" "i \<notin> set idxs" for i
  proof -
    from i(1) len perm have ixs: "i \<in> set xs" by simp
    from i(2,3) have "i \<notin> set top" by (auto simp: idxs_def)
    from outside_take [OF ixs this [unfolded top_def]]
    have idrop: "i \<in> set (drop (nat top_k) xs)" and ltop: "length top = nat top_k"
      by (simp_all add: top_def)
    have dom: "scores ! i \<le> scores ! j" if "j \<in> set top" for j
      using take_dominates [OF xs_sorted that [unfolded top_def] idrop] .
    then have "\<forall>j \<in> set top. 0 < scores ! j"
      using i(2) by force
    then have "idxs = top" by (simp add: idxs_def)
    then have "length rs = nat top_k" by (simp add: rs_def ltop)
    moreover have "\<forall>r \<in> set rs. scores ! i \<le> r_bm25_score r"
      using dom \<open>idxs = top\<close> by (auto simp: rs_def mk_result_def)
    ultimately show ?thesis ..
  qed
  have order: "idxs = filter (\<lambda>i. i \<in> set idxs) xs"
    unfolding idxs_def top_def using filter_mem_take [OF perm(1)] by simp
  from res pos srt bound dist posn complete order show ?thesis
    unfolding qs xs_def by blast
qed

theorem search_bm25_sorted_witness:
  "argsort_ok argsort_stable \<and> scorer_ok rank_bm25
   \<and> index_messages rank_bm25 HybridRetriever corpus5 = (None, indexed5)
   \<and> search_bm25 argsort_stable indexed5 ''london'' 100 True
       = Inr [mk_result msg2 tie_score, mk_result msg1 tie_score]
   \<and> query_scores indexed5 ''london'' True = [tie_score, tie_score, 0, 0, 0]
   \<and> rev (argsort_stable [tie_score, tie_score, 0, 0, 0]) = [1, 0, 4, 3, 2]
   \<and> (\<exists>rs idxs. search_bm25 argsort_stable indexed5 ''london'' 100 True = Inr rs
          \<and> list_all (\<lambda>r. 0 < r_bm25_score r) rs
          \<and> sorted_wrt (\<lambda>r r'. r_bm25_score r' \<le> r_bm25_score r) rs
          \<and> length rs \<le> 100
          \<and> positions indexed5 ''london'' True idxs rs
          \<and> idxs = filter (\<lambda>i. i \<in> set idxs) [1, 0, 4, 3, 2])"
proof -
  have "\<exists>rs idxs. search_bm25 argsort_stable indexed5 ''london'' 100 True = Inr rs
           \<and> (\<forall>r \<in> set rs. 0 < r_bm25_score r)
           \<and> sorted_wrt (\<lambda>r r'. r_bm25_score r' \<le> r_bm25_score r) rs
           \<and> length rs \<le> nat 100
           \<and> distinct idxs \<and> positions indexed5 ''london'' True idxs rs
           \<and> (\<forall>i < length corpus5.
                 0 < query_scores indexed5 ''london'' True ! i \<and> i \<notin> set idxs \<longrightarrow>
                   length rs = nat 100
                   \<and> (\<forall>r \<in> set rs. query_scores indexed5 ''london'' True ! i \<le> r_bm25_score r))
           \<and> idxs = filter (\<lambda>i. i \<in> set idxs)
                       (rev (argsort_stable (query_scores indexed5 ''london'' True)))"
    by (rule search_bm25_sorted [OF argsort_stable_ok scorer_ok_rank_bm25 index_corpus5]) simp
  then obtain rs idxs where
    a: "search_bm25 argsort_stable indexed5 ''london'' 100 True = Inr rs"
    and b: "\<forall>r \<in> set rs. 0 < r_bm25_score r"
    and c: "sorted_wrt (\<lambda>r r'. r_bm25_score r' \<le> r_bm25_score r) rs"
    and d: "length rs \<le> nat 100"
    and e: "positions indexed5 ''london'' True idxs rs"
    and f: "idxs = filter (\<lambda>i. i \<in> set idxs)
                       (rev (argsort_stable (query_scores indexed5 ''london'' True)))"
    by (elim exE conjE)
  have rv: "rev (argsort_stable [tie_score, tie_score, 0, 0, 0]) = [1, 0, 4, 3, 2]"
    by (simp add: argsort_london)
  from b have b': "list_all (\<lambda>r. 0 < r_bm25_score r) rs"
    unfolding list_all_iff .
  from d have d': "length rs \<le> 100" by simp
  from f have f': "idxs = filter (\<lambda>i. i \<in> set idxs) [1, 0, 4, 3, 2]"
    unfolding query_scores_london rv .
  from a b' c d' e f' have ex: "\<exists>rs idxs. search_bm25 argsort_stable indexed5 ''london'' 100 True = Inr rs
          \<and> list_all (\<lambda>r. 0 < r_bm25_score r) rs
          \<and> sorted_wrt (\<lambda>r r'. r_bm25_score r' \<le> r_bm25_score r) rs
          \<and> length rs \<le> 100
          \<and> positions indexed5 ''london'' True idxs rs
          \<and> idxs = filter (\<lambda>i. i \<in> set idxs) [1, 0, 4, 3, 2]"
    by (intro exI conjI)
  from argsort_stable_ok scorer_ok_rank_bm25 index_corpus5 search_london query_scores_london rv ex
  show ?thesis by (intro conjI)
qed

section \<open>Confidence: proofs\<close>

lemma sum_distances_numeric:
  "list_all numeric_distance ctx \<Longrightarrow>
   sum_distances acc ctx = Inr (acc + sum_list (map distance_of ctx))"
  by (induction ctx arbitrary: acc)
     (auto simp: numeric_distance_def distance_of_def split: pyval.splits)

lemma determine_confidence_numeric:
  assumes "list_all numeric_distance ctx"
  shows "determine_confidence ctx =
     Inr (if mean_distance ctx < 1.3 \<and> 5 \<le> length ctx then ''high''
          else if mean_distance ctx < 1.6 \<and> 3 \<le> length ctx then ''medium'' else ''low'')"
proof (cases "ctx = []")
  case True
  then show ?thesis by (simp add: determine_confidence_def)
next
  case False
  then show ?thesis
    using sum_distances_numeric [OF assms, of 0]
    by (simp add: determine_confidence_def mean_distance_def Let_def)
qed

text \<open>
  C7: when every distance that is present is a number, \<open>_determine_confidence\<close> returns
  \<open>high\<close> exactly when the mean distance is below 1.3 and there are at least 5 results,
  otherwise \<open>medium\<close> exactly when the mean is below 1.6 and there are at least 3, otherwise
  \<open>low\<close>; and on the empty list it returns \<open>low\<close> and raises nothing.
\<close>

theorem determine_confidence_rule:
  "determine_confidence [] = Inr ''low'' \<and>
   (list_all numeric_distance ctx \<longrightarrow>
     (\<exists>c. determine_confidence ctx = Inr c
        \<and> (c = ''high'' \<longleftrightarrow> mean_distance ctx < 1.3 \<and> 5 \<le> length ctx)
        \<and> (c = ''medium'' \<longleftrightarrow>
             \<not> (mean_distance ctx < 1.3 \<and> 5 \<le> length ctx)
             \<and> mean_distance ctx < 1.6 \<and> 3 \<le> length ctx)
        \<and> (c = ''low'' \<longleftrightarrow>
             \<not> (mean_distance ctx < 1.3 \<and> 5 \<le> length ctx)
             \<and> \<not> (mean_distance ctx < 1.6 \<and> 3 \<le> length ctx))))"
proof -
  have "determine_confidence [] = Inr ''low''"
    by (simp add: determine_confidence_def)
  then show ?thesis
    by (simp add: determine_confidence_numeric)
qed

theorem determine_confidence_rule_witness:
  "list_all numeric_distance ctx3 \<and> determine_confidence ctx3 = Inr ''medium''
   \<and> mean_distance ctx3 = 37 / 30 \<and> length ctx3 = 3"
proof -
  have num: "list_all numeric_distance ctx3"
    by (simp add: ctx3_def numeric_distance_def dict_get_def)
  have mean: "mean_distance ctx3 = 37 / 30"
    by (simp add: ctx3_def mean_distance_def distance_of_def dict_get_def)
  have len: "length ctx3 = 3"
    by (simp add: ctx3_def)
  from determine_confidence_rule [of ctx3] num
  obtain c where c: "determine_confidence ctx3 = Inr c"
    and "c = ''medium'' \<longleftrightarrow>
             \<not> (mean_distance ctx3 < 1.3 \<and> 5 \<le> length ctx3)
             \<and> mean_distance ctx3 < 1.6 \<and> 3 \<le> length ctx3"
    by blast
  then have "c = ''medium''"
    by (simp add: mean len)
  with c num mean len show ?thesis
    by simp
qed

section \<open>The dense index: proofs\<close>

text \<open>
  C4: when the collection already holds at least as many entries as there are messages,
  \<open>VectorStore.index_messages\<close> adds nothing, whatever the messages and embeddings are. On
  an initialized store it returns the store as it was, so the count is the same before and
  after; on a store that is not initialized yet it only opens the collection, which it
  leaves as it found it. Calling it again on the result is then again a no-op.
\<close>

theorem index_messages_skip:
  "(collection self = Some d \<and> length msgs \<le> coll_count lib d \<longrightarrow>
      VectorStore_index_messages lib self msgs embeddings = (None, self)
      \<and> get_count lib (snd (VectorStore_index_messages lib self msgs embeddings)) = get_count lib self)
   \<and> (collection self = None \<and> initialize lib self = (None, self1) \<and> collection self1 = Some d
        \<and> length msgs \<le> coll_count lib d \<longrightarrow>
      VectorStore_index_messages lib self msgs embeddings = (None, self1)
      \<and> get_count lib self1 = coll_count lib d)"
  by (simp add: VectorStore_index_messages_def get_count_def)

theorem index_messages_skip_witness:
  "collection ready_store = Some [(''1'', [0.5]), (''2'', [0.25])]
   \<and> length [msg1, msg2] \<le> coll_count list_chroma [(''1'', [0.5]), (''2'', [0.25])]
   \<and> VectorStore_index_messages list_chroma ready_store [msg1, msg2] [[0.5], [0.25]] = (None, ready_store)
   \<and> get_count list_chroma ready_store = 2
   \<and> collection (VectorStore :: (unit, (string \<times> real list) list) vector_store) = None
   \<and> initialize list_chroma VectorStore = (None, ready_store)
   \<and> VectorStore_index_messages list_chroma VectorStore [msg1, msg2] [[0.5], [0.25]] = (None, ready_store)"
proof -
  have c: "collection ready_store = Some [(''1'', [0.5]), (''2'', [0.25])]"
    by (simp add: ready_store_def)
  have l: "length [msg1, msg2] \<le> coll_count list_chroma [(''1'', [0.5]), (''2'', [0.25])]"
    by (simp add: list_chroma_def)
  have n: "collection (VectorStore :: (unit, (string \<times> real list) list) vector_store) = None"
    by (simp add: VectorStore_def)
  have i: "initialize list_chroma VectorStore = (None, ready_store)"
    by (simp add: initialize_def VectorStore_def list_chroma_def ready_store_def)
  have g: "get_count list_chroma ready_store = 2"
    by (simp add: get_count_def ready_store_def list_chroma_def)
  from index_messages_skip [of ready_store "[(''1'', [0.5]), (''2'', [0.25])]" "[msg1, msg2]" list_chroma "[[0.5], [0.25]]"] c l
  have a: "VectorStore_index_messages list_chroma ready_store [msg1, msg2] [[0.5], [0.25]] = (None, ready_store)"
    by blast
  from index_messages_skip [of VectorStore "[(''1'', [0.5]), (''2'', [0.25])]" "[msg1, msg2]" list_chroma "[[0.5], [0.25]]" ready_store] n i c l
  have b: "VectorStore_index_messages list_chroma VectorStore [msg1, msg2] [[0.5], [0.25]] = (None, ready_store)"
    by blast
  from c l a g n i b show ?thesis by blast
qed

section \<open>Fusion: proofs\<close>

lemma set_update_subset: "set (AList.update k v al) \<subseteq> insert (k, v) (set al)"
  by (induction al) auto

lemma list_all_update:
  "list_all P al \<Longrightarrow> P (k, v) \<Longrightarrow> list_all P (AList.update k v al)"
  using set_update_subset [of k v al] by (auto simp: list_all_iff)

lemma positive_foldl_update:
  "positive_scores acc \<Longrightarrow> \<forall>r \<in> set rs. 0 < r_bm25_score r \<Longrightarrow>
   positive_scores (foldl (\<lambda>d r. AList.update (PStr (r_id r)) (r_bm25_score r) d) acc rs)"
  by (induction rs arbitrary: acc) (auto simp: positive_scores_def intro: list_all_update)

lemma positive_bm25_score_dict:
  "\<forall>r \<in> set rs. 0 < r_bm25_score r \<Longrightarrow> positive_scores (bm25_score_dict rs)"
  unfolding bm25_score_dict_def by (rule positive_foldl_update) (simp_all add: positive_scores_def)

lemma semantic_score_dict_positive:
  "positive_scores acc \<Longrightarrow> \<forall>a \<in> set srs. nonneg_distance (h ! a) \<Longrightarrow>
   \<exists>ss. semantic_score_dict h acc srs = Inr ss \<and> positive_scores ss"
proof (induction srs arbitrary: acc)
  case Nil
  then show ?case by simp
next
  case (Cons a srs)
  from Cons.prems(2) obtain d where d: "dict_get (h ! a) ''distance'' (PFloat 2) = PFloat d" "0 \<le> d"
    by (auto simp: nonneg_distance_def split: pyval.splits)
  have "positive_scores (AList.update (dict_get (h ! a) ''id'' PNone) (1 / (1 + d)) acc)"
    using Cons.prems(1) d(2) unfolding positive_scores_def by (intro list_all_update) auto
  from Cons.IH [OF this] Cons.prems(2) d show ?case
    by (simp add: Let_def)
qed

lemma fold_max_ge: "(v::real) \<le> fold max vs v"
  by (induction vs arbitrary: v) (auto intro: order_trans [OF max.cobounded2])

lemma fold_max_upper: "x \<in> set vs \<Longrightarrow> (x::real) \<le> fold max vs v"
proof (induction vs arbitrary: v)
  case Nil
  then show ?case by simp
next
  case (Cons y vs)
  then show ?case
    using fold_max_ge [of "max y v" vs] by auto
qed

lemma normalize_scores_unit:
  assumes "positive_scores d"
  shows "\<exists>d'. normalize_scores d = Inr d' \<and> unit_scores d' \<and> map fst d' = map fst d"
proof (cases d)
  case Nil
  then show ?thesis by (simp add: normalize_scores_def unit_scores_def)
next
  case (Cons p ps)
  define m where "m = fold max (map snd ps) (snd p)"
  have pos: "\<forall>(k, v) \<in> set d. 0 < v"
    using assms by (simp add: positive_scores_def list_all_iff)
  have ub: "\<forall>(k, v) \<in> set d. v \<le> m"
  proof (clarify)
    fix k v assume "(k, v) \<in> set d"
    then consider "v = snd p" | "v \<in> set (map snd ps)"
      by (force simp: Cons)
    then show "v \<le> m"
      unfolding m_def by cases (simp_all add: fold_max_ge fold_max_upper)
  qed
  have "0 < snd p" using pos Cons by auto
  then have m: "0 < m"
    using fold_max_ge [of "snd p" "map snd ps"] by (simp add: m_def)
  have eq: "normalize_scores d = Inr (map (\<lambda>(k, x). (k, x / m)) d)"
    using m by (simp add: normalize_scores_def Cons m_def Let_def)
  have "unit_scores (map (\<lambda>(k, x). (k, x / m)) d)"
    using pos ub m by (auto simp: unit_scores_def list_all_iff)
  moreover have "map fst (map (\<lambda>(k, x). (k, x / m)) d) = map fst d"
    by (induction d) auto
  ultimately show ?thesis using eq by simp
qed

lemma score_get_unit: "unit_scores d \<Longrightarrow> 0 \<le> score_get d k \<and> score_get d k \<le> 1"
  by (auto simp: score_get_def unit_scores_def list_all_iff split: option.splits dest!: map_of_SomeD)

lemma combined_score_unit:
  assumes "0 \<le> w" "w \<le> 1" "unit_scores nb" "unit_scores ns"
  shows "0 \<le> combined_score w nb ns i \<and> combined_score w nb ns i \<le> 1"
proof -
  let ?b = "score_get nb i" and ?s = "score_get ns i"
  have b: "0 \<le> ?b" "?b \<le> 1" and s: "0 \<le> ?s" "?s \<le> 1"
    using assms(3,4) by (simp_all add: score_get_unit)
  have "w * ?b \<le> w * 1" "(1 - w) * ?s \<le> (1 - w) * 1"
    using assms(1,2) b s by (intro mult_left_mono; simp)+
  moreover have "0 \<le> w * ?b" "0 \<le> (1 - w) * ?s"
    using assms(1,2) b s by simp_all
  ultimately show ?thesis
    by (simp add: combined_score_def)
qed

lemma score_get_combined_unit:
  assumes "0 \<le> w" "w \<le> 1" "unit_scores nb" "unit_scores ns"
  shows "0 \<le> score_get (combined_scores order w nb ns) i \<and> score_get (combined_scores order w nb ns) i \<le> 1"
proof (cases "map_of (combined_scores order w nb ns) i")
  case None
  then show ?thesis by (simp add: score_get_def)
next
  case (Some v)
  then have "(i, v) \<in> set (combined_scores order w nb ns)"
    by (rule map_of_SomeD)
  then have "v = combined_score w nb ns i"
    by (auto simp: combined_scores_def)
  with Some combined_score_unit [OF assms, of i] show ?thesis
    by (simp add: score_get_def)
qed

lemma map_of_write_scores:
  "map_of (write_scores d x b s) ''hybrid_score'' = Some (PFloat x)"
  by (simp add: write_scores_def dict_set_def update_conv')

lemma unit_hybrid_score_write:
  "0 \<le> x \<Longrightarrow> x \<le> 1 \<Longrightarrow> unit_hybrid_score (write_scores d x b s)"
  by (simp add: unit_hybrid_score_def map_of_write_scores)

lemma find_semantic_mem: "find_semantic h srs i = Some a \<Longrightarrow> a \<in> set srs"
  by (induction srs) (auto split: if_splits)

lemma lookup_msg_data_heap:
  assumes "lookup_msg_data srs bm h i = (md, h1)" and "\<forall>a \<in> set srs. a < length h"
  shows "length h \<le> length h1 \<and> (\<forall>b < length h. h1 ! b = h ! b)
         \<and> (\<forall>a. md = Some a \<longrightarrow> a < length h1)"
  using assms
  by (auto simp: lookup_msg_data_def Let_def nth_append
           split: option.splits if_splits dest: find_semantic_mem)

lemma build_final_unit:
  assumes "\<forall>i. 0 \<le> score_get comb i \<and> score_get comb i \<le> 1"
    and "\<forall>a \<in> set srs. a < length h"
    and "\<forall>a \<in> A. a < length h \<and> unit_hybrid_score (h ! a)"
    and "build_final srs bm comb nb ns h ids = (rs, h')"
  shows "length h \<le> length h' \<and> (\<forall>a \<in> A \<union> set rs. a < length h' \<and> unit_hybrid_score (h' ! a))"
  using assms(2-)
proof (induction ids arbitrary: h A rs h')
  case Nil
  then show ?case by auto
next
  case (Cons i ids)
  obtain md h1 where lk: "lookup_msg_data srs bm h i = (md, h1)"
    by (cases "lookup_msg_data srs bm h i")
  from lookup_msg_data_heap [OF lk Cons.prems(1)]
  have len1: "length h \<le> length h1" and same1: "\<forall>b < length h. h1 ! b = h ! b"
    and md: "\<forall>a. md = Some a \<longrightarrow> a < length h1"
    by blast+
  have srs1: "\<forall>a \<in> set srs. a < length h1"
    using Cons.prems(1) len1 by auto
  have A1: "\<forall>a \<in> A. a < length h1 \<and> unit_hybrid_score (h1 ! a)"
    using Cons.prems(2) len1 same1 by auto
  show ?case
  proof (cases "case md of None \<Rightarrow> True | Some a \<Rightarrow> h1 ! a = []")
    case True
    then have "build_final srs bm comb nb ns h1 ids = (rs, h')"
      using Cons.prems(3) lk by (auto split: option.splits)
    from Cons.IH [OF srs1 A1 this] len1 show ?thesis by auto
  next
    case False
    then obtain a where a: "md = Some a" "h1 ! a \<noteq> []"
      by (auto split: option.splits)
    define h2 where "h2 = h1[a := write_scores (h1 ! a) (score_get comb i)
                                (score_get nb i) (score_get ns i)]"
    obtain rs' where rest: "build_final srs bm comb nb ns h2 ids = (rs', h')" and rs: "rs = a # rs'"
      using Cons.prems(3) lk a by (auto simp: h2_def Let_def split: prod.splits)
    have alen: "a < length h1" using md a by simp
    have len2: "length h2 = length h1" by (simp add: h2_def)
    have srs2: "\<forall>a \<in> set srs. a < length h2"
      using srs1 len2 by simp
    have "unit_hybrid_score (h2 ! a)"
      using alen assms(1) by (simp add: h2_def unit_hybrid_score_write)
    moreover have "\<forall>b \<in> A. b \<noteq> a \<longrightarrow> h2 ! b = h1 ! b"
      by (simp add: h2_def)
    ultimately have A2: "\<forall>b \<in> insert a A. b < length h2 \<and> unit_hybrid_score (h2 ! b)"
      using A1 alen len2 by (metis insert_iff)
    from Cons.IH [OF srs2 A2 rest] len1 len2 rs show ?thesis by auto
  qed
qed

lemma hybrid_search_unfold:
  assumes bm: "search_bm25 argsort self query 100 True = Inr bm"
    and w: "0 \<le> w" "w \<le> 1"
    and dist: "\<forall>a \<in> set srs. nonneg_distance (h ! a)"
  shows "\<exists>nb ns. unit_scores nb \<and> unit_scores ns
           \<and> normalize_scores (bm25_score_dict bm) = Inr nb
           \<and> map fst nb = map fst (bm25_score_dict bm)
           \<and> (\<exists>ss. semantic_score_dict h [] srs = Inr ss \<and> normalize_scores ss = Inr ns
                     \<and> map fst ns = map fst ss)
           \<and> hybrid_search order argsort self h query srs w top_k =
               Inr (build_final srs bm (combined_scores order w nb ns) nb ns h
                      (sorted_ids (combined_scores order w nb ns) top_k))"
proof -
  have "positive_scores (bm25_score_dict bm)"
    using search_bm25_positive [OF bm] by (rule positive_bm25_score_dict)
  from normalize_scores_unit [OF this] obtain nb where
    nb: "normalize_scores (bm25_score_dict bm) = Inr nb" "unit_scores nb"
        "map fst nb = map fst (bm25_score_dict bm)"
    by blast
  have "positive_scores []" by (simp add: positive_scores_def)
  from semantic_score_dict_positive [OF this dist] obtain ss where
    ss: "semantic_score_dict h [] srs = Inr ss" "positive_scores ss"
    by blast
  from normalize_scores_unit [OF ss(2)] obtain ns where
    ns: "normalize_scores ss = Inr ns" "unit_scores ns" "map fst ns = map fst ss"
    by blast
  have "hybrid_search order argsort self h query srs w top_k =
               Inr (build_final srs bm (combined_scores order w nb ns) nb ns h
                      (sorted_ids (combined_scores order w nb ns) top_k))"
    by (simp add: hybrid_search_def score_fusion_def bm ss nb ns)
  with nb ns ss show ?thesis by blast
qed

text \<open>
  C1: for every query, every weight in \<open>[0, 1]\<close> and every list of dense results whose
  distances are not negative, \<open>hybrid_search\<close> returns whenever its lexical search does,
  and every dictionary of the returned list has a \<open>hybrid_score\<close> between 0 and 1.
\<close>

theorem hybrid_score_unit:
  assumes "0 \<le> bm25_weight" and "bm25_weight \<le> 1"
    and "\<forall>a \<in> set semantic_results. a < length h \<and> nonneg_distance (h ! a)"
    and "search_bm25 argsort self query 100 True = Inr bm25_results"
  shows "\<exists>results h'.
           hybrid_search order argsort self h query semantic_results bm25_weight top_k = Inr (results, h')
           \<and> (\<forall>a \<in> set results. a < length h' \<and> unit_hybrid_score (h' ! a))"
proof -
  from assms(3) have dist: "\<forall>a \<in> set semantic_results. nonneg_distance (h ! a)"
    and refs: "\<forall>a \<in> set semantic_results. a < length h"
    by auto
  from hybrid_search_unfold [OF assms(4,1,2) dist, of order top_k] obtain nb ns where
    u: "unit_scores nb" "unit_scores ns"
    and hs: "hybrid_search order argsort self h query semantic_results bm25_weight top_k =
               Inr (build_final semantic_results bm25_results (combined_scores order bm25_weight nb ns)
                      nb ns h (sorted_ids (combined_scores order bm25_weight nb ns) top_k))"
    by blast
  obtain results h' where bf:
    "build_final semantic_results bm25_results (combined_scores order bm25_weight nb ns)
       nb ns h (sorted_ids (combined_scores order bm25_weight nb ns) top_k) = (results, h')"
    by (cases "build_final semantic_results bm25_results (combined_scores order bm25_weight nb ns)
       nb ns h (sorted_ids (combined_scores order bm25_weight nb ns) top_k)")
  have bound: "\<forall>i. 0 \<le> score_get (combined_scores order bm25_weight nb ns) i
                  \<and> score_get (combined_scores order bm25_weight nb ns) i \<le> 1"
    using score_get_combined_unit [OF assms(1,2) u] by blast
  have "\<forall>a \<in> {} \<union> set results. a < length h' \<and> unit_hybrid_score (h' ! a)"
    using build_final_unit [OF bound refs _ bf, of "{}"] by blast
  with hs bf show ?thesis by simp
qed

text \<open>The examples, evaluated.\<close>

lemma set_order_ok_remdups: "set_order_ok remdups"
  by (simp add: set_order_ok_def)

lemma dense_heap_ok: "\<forall>a \<in> set [0, 1]. a < length dense_heap \<and> nonneg_distance (dense_heap ! a)"
  by (simp add: dense_heap_def nonneg_distance_def dict_get_def)

lemma dense_heap_wf: "\<forall>a \<in> set [0, 1]. a < length dense_heap \<and> dense_heap ! a \<noteq> []"
  by (simp add: dense_heap_def)

lemma semantic_example: "semantic_score_dict dense_heap [] [0, 1] = Inr [(PStr ''2'', 5 / 6), (PStr ''3'', 5 / 9)]"
  by code_simp

lemma normalize_semantic_example:
  "normalize_scores [(PStr ''2'', 5 / 6), (PStr ''3'', 5 / 9)] = Inr semantic_scores_example"
  by (simp add: normalize_scores_def semantic_scores_example_def)

lemma bm25_dict_example:
  "bm25_score_dict lexical_example = [(PStr ''2'', tie_score), (PStr ''1'', tie_score)]"
  by (simp add: bm25_score_dict_def lexical_example_def mk_result_def msg1_def msg2_def)

lemma normalize_bm25_example:
  "normalize_scores [(PStr ''2'', tie_score), (PStr ''1'', tie_score)] = Inr bm25_scores_example"
  using tie_score_pos by (simp add: normalize_scores_def bm25_scores_example_def)

lemma score_fusion_example:
  "score_fusion remdups argsort_stable indexed5 dense_heap ''london'' [0, 1] w
     = Inr (fusion_example w)"
  by (simp only: score_fusion_def search_london [folded lexical_example_def] semantic_example
        bm25_dict_example normalize_bm25_example normalize_semantic_example fusion_example_def
        sum.case)

lemma hybrid_search_example:
  "hybrid_search remdups argsort_stable indexed5 dense_heap ''london'' [0, 1] w top_k
     = Inr (build_final [0, 1] lexical_example
              (combined_scores remdups w bm25_scores_example semantic_scores_example)
              bm25_scores_example semantic_scores_example dense_heap
              (sorted_ids (combined_scores remdups w bm25_scores_example semantic_scores_example)
                 top_k))"
  by (simp only: hybrid_search_def score_fusion_example fusion_example_def sum.case prod.case)

lemma combined_example:
  "combined_scores remdups w bm25_scores_example semantic_scores_example
     = [(PStr ''1'', w), (PStr ''2'', w + (1 - w)), (PStr ''3'', (1 - w) * (2 / 3))]"
  by (simp add: combined_scores_def all_ids_def combined_score_def score_get_def
        bm25_scores_example_def semantic_scores_example_def)

lemma sorted_ids_example:
  "sorted_ids (combined_scores remdups (3 / 5) bm25_scores_example semantic_scores_example) 30
     = [PStr ''2'', PStr ''1'', PStr ''3'']"
  "sorted_ids (combined_scores remdups (3 / 5) bm25_scores_example semantic_scores_example) 2
     = [PStr ''2'', PStr ''1'']"
  "sorted_ids (combined_scores remdups 1 bm25_scores_example semantic_scores_example) 30
     = [PStr ''1'', PStr ''2'', PStr ''3'']"
  "sorted_ids (combined_scores remdups 0 bm25_scores_example semantic_scores_example) 30
     = [PStr ''2'', PStr ''3'', PStr ''1'']"
  unfolding combined_example by code_simp+

lemma results_example:
  "map_sum id fst
     (hybrid_search remdups argsort_stable indexed5 dense_heap ''london'' [0, 1] (3 / 5) 30)
     = Inr [0, 2, 1]"
  "map_sum id fst
     (hybrid_search remdups argsort_stable indexed5 dense_heap ''london'' [0, 1] (3 / 5) 2)
     = Inr [0, 2]"
  unfolding hybrid_search_example sorted_ids_example
  by (simp_all add: lookup_msg_data_def dense_heap_def dict_get_def lexical_example_def
        mk_result_def msg1_def msg2_def fallback_dict_def write_scores_def dict_set_def)

theorem hybrid_score_unit_witness:
  "list_all (\<lambda>a. a < length dense_heap \<and> nonneg_distance (dense_heap ! a)) [0, 1]
   \<and> search_bm25 argsort_stable indexed5 ''london'' 100 True
        = Inr [mk_result msg2 tie_score, mk_result msg1 tie_score]
   \<and> (\<exists>results h'.
         hybrid_search remdups argsort_stable indexed5 dense_heap ''london'' [0, 1] (3 / 5) 30
           = Inr (results, h')
         \<and> list_all (\<lambda>a. a < length h' \<and> unit_hybrid_score (h' ! a)) results)
   \<and> map_sum id fst
        (hybrid_search remdups argsort_stable indexed5 dense_heap ''london'' [0, 1] (3 / 5) 30)
        = Inr [0, 2, 1]"
proof -
  have "\<exists>results h'.
         hybrid_search remdups argsort_stable indexed5 dense_heap ''london'' [0, 1] (3 / 5) 30
           = Inr (results, h')
         \<and> (\<forall>a \<in> set results. a < length h' \<and> unit_hybrid_score (h' ! a))"
    by (rule hybrid_score_unit [OF _ _ dense_heap_ok search_london]) simp_all
  then have ex: "\<exists>results h'.
         hybrid_search remdups argsort_stable indexed5 dense_heap ''london'' [0, 1] (3 / 5) 30
           = Inr (results, h')
         \<and> list_all (\<lambda>a. a < length h' \<and> unit_hybrid_score (h' ! a)) results"
    unfolding list_all_iff .
  have ok: "list_all (\<lambda>a. a < length dense_heap \<and> nonneg_distance (dense_heap ! a)) [0, 1]"
    using dense_heap_ok unfolding list_all_iff .
  from ok search_london ex results_example(1) show ?thesis
    by (intro conjI)
qed

lemma find_semantic_id: "find_semantic h srs i = Some a \<Longrightarrow> id_of (h ! a) = i"
  by (induction srs) (auto simp: id_of_def split: if_splits)

lemma find_semantic_cong:
  "\<forall>a \<in> set srs. id_of (h2 ! a) = id_of (h ! a) \<Longrightarrow>
   find_semantic h2 srs i = find_semantic h srs i"
  by (induction srs) (auto simp: id_of_def)

lemma find_semantic_None: "find_semantic h srs i = None \<longleftrightarrow> i \<notin> (\<lambda>a. id_of (h ! a)) ` set srs"
  by (induction srs) (auto simp: id_of_def)

lemma find_bm25_id: "find_bm25 bm i = Some r \<Longrightarrow> PStr (r_id r) = i"
  by (induction bm) (auto split: if_splits)

lemma find_bm25_None: "find_bm25 bm i = None \<longleftrightarrow> i \<notin> (\<lambda>r. PStr (r_id r)) ` set bm"
  by (induction bm) auto

lemma update_nonempty: "AList.update k v al \<noteq> []"
  by (cases al) auto

lemma write_scores_nonempty: "write_scores d x b s \<noteq> []"
  by (simp add: write_scores_def dict_set_def update_nonempty)

lemma id_of_write_scores: "id_of (write_scores d x b s) = id_of d"
  by (simp add: id_of_def dict_get_def write_scores_def dict_set_def update_conv')

lemma scored_nonempty: "scored comb nb ns d i \<noteq> []"
  by (simp add: scored_def write_scores_nonempty)

lemma id_of_scored: "id_of (scored comb nb ns d i) = id_of d"
  by (simp add: scored_def id_of_write_scores)

lemma id_of_fallback_dict: "id_of (fallback_dict r) = PStr (r_id r)"
  by (simp add: id_of_def dict_get_def fallback_dict_def)

text \<open>What the two inner loops find when no dense result is an empty dictionary.\<close>

lemma lookup_msg_data_wf:
  assumes "\<forall>a \<in> set srs. a < length h \<and> h ! a \<noteq> []"
    and "find_semantic h srs i \<noteq> None \<or> find_bm25 bm i \<noteq> None"
  shows "(\<exists>a. find_semantic h srs i = Some a \<and> lookup_msg_data srs bm h i = (Some a, h))
       \<or> (\<exists>r. find_semantic h srs i = None \<and> find_bm25 bm i = Some r
              \<and> lookup_msg_data srs bm h i = (Some (length h), h @ [fallback_dict r]))"
proof (cases "find_semantic h srs i")
  case None
  with assms(2) obtain r where "find_bm25 bm i = Some r" by auto
  with None show ?thesis by (simp add: lookup_msg_data_def)
next
  case (Some a)
  then have "h ! a \<noteq> []"
    using assms(1) find_semantic_mem by blast
  with Some show ?thesis by (simp add: lookup_msg_data_def)
qed

lemma build_final_spec:
  assumes "\<forall>a \<in> set srs. a < length h \<and> h ! a \<noteq> []"
    and "distinct ids"
    and "\<forall>i \<in> set ids. find_semantic h srs i \<noteq> None \<or> find_bm25 bm i \<noteq> None"
    and "build_final srs bm comb nb ns h ids = (rs, h')"
  shows "length h \<le> length h'
       \<and> list_all2 (result_for srs bm comb nb ns h h') ids rs
       \<and> (\<forall>b < length h. b \<notin> set rs \<longrightarrow> h' ! b = h ! b)"
  using assms
proof (induction ids arbitrary: h rs h')
  case Nil
  then show ?case by simp
next
  case (Cons i ids)
  let ?S = "scored comb nb ns"
  have wf: "\<forall>a \<in> set srs. a < length h \<and> h ! a \<noteq> []" by (rule Cons.prems(1))
  have res_i: "find_semantic h srs i \<noteq> None \<or> find_bm25 bm i \<noteq> None"
    using Cons.prems(3) by simp
  \<comment> \<open>the dictionary found for \<open>i\<close>: its address \<open>a\<close> in the store \<open>h1\<close>\<close>
  from lookup_msg_data_wf [OF wf res_i]
  obtain a h1 where lk: "lookup_msg_data srs bm h i = (Some a, h1)"
    and kind: "(find_semantic h srs i = Some a \<and> h1 = h)
             \<or> (\<exists>r. find_semantic h srs i = None \<and> find_bm25 bm i = Some r
                    \<and> a = length h \<and> h1 = h @ [fallback_dict r])"
    by blast
  have len1: "length h \<le> length h1" and same1: "\<forall>b < length h. h1 ! b = h ! b"
    using kind by (auto simp: nth_append)
  have alen: "a < length h1" and ane: "h1 ! a \<noteq> []"
    using kind wf find_semantic_mem [of h srs i a] by (auto simp: fallback_dict_def)
  define h2 where "h2 = h1[a := ?S (h1 ! a) i]"
  obtain rs' where rest: "build_final srs bm comb nb ns h2 ids = (rs', h')" and rs: "rs = a # rs'"
    using Cons.prems(4) lk ane
    by (auto simp: h2_def scored_def Let_def split: prod.splits)
  have len2: "length h2 = length h1" by (simp add: h2_def)
  have h2a: "h2 ! a = ?S (h1 ! a) i" using alen by (simp add: h2_def)
  have h2other: "\<And>b. b \<noteq> a \<Longrightarrow> h2 ! b = h1 ! b" by (simp add: h2_def)
  have ids2: "\<forall>b < length h. id_of (h2 ! b) = id_of (h ! b)"
  proof (intro allI impI)
    fix b assume b: "b < length h"
    show "id_of (h2 ! b) = id_of (h ! b)"
    proof (cases "b = a")
      case True
      then show ?thesis using h2a same1 b by (simp add: id_of_scored)
    next
      case False
      then show ?thesis using h2other same1 b by simp
    qed
  qed
  have fs2: "\<And>j. find_semantic h2 srs j = find_semantic h srs j"
    using ids2 wf by (intro find_semantic_cong) auto
  have wf2: "\<forall>b \<in> set srs. b < length h2 \<and> h2 ! b \<noteq> []"
  proof
    fix b assume b: "b \<in> set srs"
    then have "b < length h" "h ! b \<noteq> []" using wf by auto
    then show "b < length h2 \<and> h2 ! b \<noteq> []"
      using len1 len2 h2a h2other [of b] same1 by (cases "b = a") (auto simp: scored_nonempty)
  qed
  have res2: "\<forall>j \<in> set ids. find_semantic h2 srs j \<noteq> None \<or> find_bm25 bm j \<noteq> None"
    using Cons.prems(3) by (simp add: fs2)
  from Cons.prems(2) have dist: "distinct ids" and inot: "i \<notin> set ids" by auto
  from Cons.IH [OF wf2 dist res2 rest]
  have len': "length h2 \<le> length h'"
    and all2: "list_all2 (result_for srs bm comb nb ns h2 h') ids rs'"
    and frame2: "\<forall>b < length h2. b \<notin> set rs' \<longrightarrow> h' ! b = h2 ! b"
    by blast+
  \<comment> \<open>a dictionary found for another id is another dictionary\<close>
  have other: "b \<noteq> a \<and> (b < length h \<longrightarrow> h2 ! b = h ! b)"
    if j: "j \<in> set ids" and r: "result_for srs bm comb nb ns h2 h' j b" for j b
  proof (cases "find_semantic h2 srs j")
    case None
    with r have "length h2 \<le> b"
      by (auto simp: result_for_def split: option.splits)
    then show ?thesis using alen len1 len2 by auto
  next
    case (Some a')
    with r have ba: "b = a'" by (simp add: result_for_def)
    from Some have fj: "find_semantic h srs j = Some b" by (simp add: fs2 ba)
    then have bsrs: "b \<in> set srs" and bid: "id_of (h ! b) = j"
      by (rule find_semantic_mem, rule find_semantic_id)
    have blen: "b < length h" using bsrs wf by simp
    have "b \<noteq> a"
    proof
      assume "b = a"
      with blen kind have "find_semantic h srs i = Some b" by auto
      then have "id_of (h ! b) = i" by (rule find_semantic_id)
      with bid j inot show False by simp
    qed
    then show ?thesis using h2other same1 blen by simp
  qed
  have anot: "a \<notin> set rs'"
  proof
    assume "a \<in> set rs'"
    then obtain n where n: "n < length rs'" "rs' ! n = a"
      by (auto simp: in_set_conv_nth)
    with all2 have "result_for srs bm comb nb ns h2 h' (ids ! n) a" "ids ! n \<in> set ids"
      by (auto simp: list_all2_conv_all_nth)
    with other show False by blast
  qed
  have h'a: "h' ! a = ?S (h1 ! a) i"
    using frame2 anot alen len2 h2a by simp
  have head: "result_for srs bm comb nb ns h h' i a"
    using kind h'a alen len2 len'
    by (auto simp: result_for_def)
  have tail: "list_all2 (result_for srs bm comb nb ns h h') ids rs'"
    using all2
  proof (rule list.rel_mono_strong)
    fix j b assume j: "j \<in> set ids" and r: "result_for srs bm comb nb ns h2 h' j b"
    from other [OF j r] have eq: "b < length h \<longrightarrow> h2 ! b = h ! b" by simp
    show "result_for srs bm comb nb ns h h' j b"
    proof (cases "find_semantic h srs j")
      case None
      with r len1 len2 show ?thesis
        by (auto simp: result_for_def fs2 split: option.splits)
    next
      case (Some a')
      then have "a' < length h" using find_semantic_mem wf by blast
      with Some r eq show ?thesis
        by (auto simp: result_for_def fs2)
    qed
  qed
  have frame: "\<forall>b < length h. b \<notin> set rs \<longrightarrow> h' ! b = h ! b"
    using frame2 h2other same1 len1 len2 rs by auto
  from len1 len2 len' head tail frame rs show ?case by simp
qed

lemma keys_foldl_update:
  "fst ` set (foldl (\<lambda>d r. AList.update (PStr (r_id r)) (r_bm25_score r) d) acc rs)
     = fst ` set acc \<union> (\<lambda>r. PStr (r_id r)) ` set rs"
  by (induction rs arbitrary: acc) (auto simp: dom_update)

lemma keys_bm25_score_dict: "fst ` set (bm25_score_dict bm) = (\<lambda>r. PStr (r_id r)) ` set bm"
  by (simp add: bm25_score_dict_def keys_foldl_update)

lemma keys_semantic_score_dict:
  "semantic_score_dict h acc srs = Inr ss \<Longrightarrow>
   fst ` set ss = fst ` set acc \<union> (\<lambda>a. id_of (h ! a)) ` set srs"
proof (induction srs arbitrary: acc)
  case Nil
  then show ?case by simp
next
  case (Cons a srs)
  from Cons.prems obtain d where
    "semantic_score_dict h (AList.update (id_of (h ! a)) (1 / (1 + d)) acc) srs = Inr ss"
    by (auto simp: Let_def id_of_def split: pyval.splits if_splits)
  from Cons.IH [OF this] show ?case
    by (auto simp: dom_update)
qed

lemma normalize_scores_keys: "normalize_scores d = Inr d' \<Longrightarrow> map fst d' = map fst d"
  by (auto simp: normalize_scores_def Let_def split: list.splits if_splits)

lemma score_fusion_keys:
  assumes "score_fusion order argsort self h query srs w = Inr (bm, nb, ns, comb)"
  shows "fst ` set nb = (\<lambda>r. PStr (r_id r)) ` set bm"
    and "fst ` set ns = (\<lambda>a. id_of (h ! a)) ` set srs"
    and "comb = combined_scores order w nb ns"
proof -
  from assms obtain ss where
    ss: "semantic_score_dict h [] srs = Inr ss"
    and nb: "normalize_scores (bm25_score_dict bm) = Inr nb"
    and ns: "normalize_scores ss = Inr ns"
    and comb: "comb = combined_scores order w nb ns"
    by (auto simp: score_fusion_def split: sum.splits)
  have "set (map fst nb) = set (map fst (bm25_score_dict bm))"
    using normalize_scores_keys [OF nb] by simp
  then show "fst ` set nb = (\<lambda>r. PStr (r_id r)) ` set bm"
    by (simp add: keys_bm25_score_dict)
  have "set (map fst ns) = set (map fst ss)"
    using normalize_scores_keys [OF ns] by simp
  then show "fst ` set ns = (\<lambda>a. id_of (h ! a)) ` set srs"
    using keys_semantic_score_dict [OF ss] by simp
  show "comb = combined_scores order w nb ns" by (rule comb)
qed

lemma set_all_ids:
  "set_order_ok order \<Longrightarrow> set (all_ids order nb ns) = fst ` set nb \<union> fst ` set ns"
  by (simp add: all_ids_def set_order_ok_def)

lemma distinct_all_ids: "set_order_ok order \<Longrightarrow> distinct (all_ids order nb ns)"
  by (simp add: all_ids_def set_order_ok_def)

lemma keys_combined_scores: "map fst (combined_scores order w nb ns) = all_ids order nb ns"
  by (simp add: combined_scores_def comp_def)

lemma score_get_combined_scores:
  "i \<in> set (all_ids order nb ns) \<Longrightarrow> score_get (combined_scores order w nb ns) i = combined_score w nb ns i"
  by (simp add: score_get_def combined_scores_def map_of_map_restrict)

lemma score_get_missing: "i \<notin> fst ` set d \<Longrightarrow> score_get d i = 0"
  by (simp add: score_get_def map_of_eq_None_iff [THEN iffD2])

lemma set_rank_ids: "set (rank_ids f ids top_k) \<subseteq> set ids"
  using set_slice_to [of top_k "sort_key (\<lambda>x. - f x) ids"] by (simp add: rank_ids_def)

lemma distinct_rank_ids: "distinct ids \<Longrightarrow> distinct (rank_ids f ids top_k)"
  by (simp add: rank_ids_def slice_to_def)

lemma set_rank_ids_all:
  "int (length ids) \<le> top_k \<Longrightarrow> set (rank_ids f ids top_k) = set ids"
  by (simp add: rank_ids_def slice_to_def)

lemma insort_key_cong:
  "f x = g x \<Longrightarrow> \<forall>y \<in> set ys. f y = g y \<Longrightarrow> insort_key f x ys = insort_key g x ys"
  by (induction ys) auto

lemma sort_key_agree: "\<forall>x \<in> set xs. f x = g x \<Longrightarrow> sort_key f xs = sort_key g xs"
  by (induction xs) (auto intro: insort_key_cong)

lemma rank_ids_cong: "\<forall>x \<in> set ids. f x = g x \<Longrightarrow> rank_ids f ids top_k = rank_ids g ids top_k"
  using sort_key_agree [of ids "\<lambda>x. - f x" "\<lambda>x. - g x"] by (simp add: rank_ids_def)

lemma result_for_id:
  "result_for srs bm comb nb ns h h' i b \<Longrightarrow> id_of (h' ! b) = i"
  by (auto simp: result_for_def id_of_scored id_of_fallback_dict
           split: option.splits dest: find_semantic_id find_bm25_id)

lemma list_all2_map_eq: "list_all2 (\<lambda>x y. f y = x) xs ys \<Longrightarrow> map f ys = xs"
  by (induction xs ys rule: list_all2_induct) auto

text \<open>The whole of \<open>hybrid_search\<close> when no dense result is an empty dictionary.\<close>

lemma hybrid_search_spec:
  assumes ok: "set_order_ok order"
    and wf: "\<forall>a \<in> set srs. a < length h \<and> h ! a \<noteq> []"
    and fus: "score_fusion order argsort self h query srs w = Inr (bm, nb, ns, comb)"
  shows "\<exists>rs h'. hybrid_search order argsort self h query srs w top_k = Inr (rs, h')
           \<and> length h \<le> length h'
           \<and> list_all2 (result_for srs bm comb nb ns h h') (sorted_ids comb top_k) rs
           \<and> (\<forall>b < length h. b \<notin> set rs \<longrightarrow> h' ! b = h ! b)"
proof -
  let ?ids = "sorted_ids comb top_k"
  note keys = score_fusion_keys [OF fus]
  have sub: "set ?ids \<subseteq> set (all_ids order nb ns)"
    using set_rank_ids [of "score_get comb" "map fst comb" top_k]
    by (simp add: sorted_ids_def keys(3) keys_combined_scores)
  have dist: "distinct ?ids"
    by (simp add: sorted_ids_def keys(3) keys_combined_scores distinct_rank_ids
          distinct_all_ids [OF ok])
  have res: "\<forall>i \<in> set ?ids. find_semantic h srs i \<noteq> None \<or> find_bm25 bm i \<noteq> None"
  proof
    fix i assume "i \<in> set ?ids"
    with sub have "i \<in> fst ` set nb \<union> fst ` set ns"
      by (auto simp: set_all_ids [OF ok])
    then show "find_semantic h srs i \<noteq> None \<or> find_bm25 bm i \<noteq> None"
      unfolding keys(1,2) find_semantic_None find_bm25_None by blast
  qed
  obtain rs h' where bf: "build_final srs bm comb nb ns h ?ids = (rs, h')"
    by (cases "build_final srs bm comb nb ns h ?ids")
  have "hybrid_search order argsort self h query srs w top_k = Inr (rs, h')"
    by (simp add: hybrid_search_def fus bf)
  with build_final_spec [OF wf dist res bf] show ?thesis by blast
qed

lemma map_of_write_scores_all:
  "map_of (write_scores d x b s)
     = (map_of d)(''hybrid_score'' \<mapsto> PFloat x, ''bm25_score'' \<mapsto> PFloat b,
                  ''semantic_score'' \<mapsto> PFloat s)"
  by (simp add: write_scores_def dict_set_def update_conv')

lemma dict_get_scored:
  "dict_get (scored comb nb ns d i) ''hybrid_score'' PNone = PFloat (score_get comb i)"
  "dict_get (scored comb nb ns d i) ''bm25_score'' PNone = PFloat (score_get nb i)"
  "dict_get (scored comb nb ns d i) ''semantic_score'' PNone = PFloat (score_get ns i)"
  "dict_get (scored comb nb ns d i) ''distance'' PNone = dict_get d ''distance'' PNone"
  "display_fields (scored comb nb ns d i) = display_fields d"
  by (simp_all add: scored_def dict_get_def display_fields_def map_of_write_scores_all)

lemma fallback_dict_fields:
  "display_fields (fallback_dict r)
     = (PStr (r_document r), PStr (r_user_name r), PStr (r_timestamp r))"
  "dict_get (fallback_dict r) ''distance'' PNone = PFloat 0.5"
  by (simp_all add: fallback_dict_def display_fields_def dict_get_def)

lemma contribution_eq: "contribution d i = score_get d i"
  by (simp add: contribution_def score_get_missing)

lemma result_for_recovered:
  "result_for srs bm comb nb ns h h' i b \<Longrightarrow> recovered srs bm h h' i b"
  by (auto simp: result_for_def recovered_def dict_get_scored fallback_dict_fields
           split: option.splits)

lemma result_for_fused_with:
  assumes "result_for srs bm (combined_scores order w nb ns) nb ns h h' i b"
    and "i \<in> set (all_ids order nb ns)"
  shows "fused_with w nb ns h' i b"
proof -
  from assms(1) obtain d where "h' ! b = scored (combined_scores order w nb ns) nb ns d i"
    by (auto simp: result_for_def split: option.splits)
  then show ?thesis
    using assms(2)
    by (simp add: fused_with_def dict_get_scored contribution_eq score_get_combined_scores
          combined_score_def)
qed

text \<open>
  C10: \<open>hybrid_search\<close> writes into the dictionaries of its argument. When no dense result
  is an empty dictionary, for every fused id that survives the truncation and has a dense
  counterpart, the address of that counterpart, the first dictionary of
  \<open>semantic_results\<close> with this id, is itself in the returned list, and after the call the
  dictionary at this address reads the fused score under \<open>hybrid_score\<close>, the normalized
  lexical score under \<open>bm25_score\<close> and the normalized similarity under \<open>semantic_score\<close>,
  and under every other key what it read before. Every other returned address is a new
  dictionary, and every dictionary of the old store that is not returned, the dense
  results that do not survive among them, is unchanged. This holds in whatever order the
  set of ids is iterated.
\<close>

theorem hybrid_search_in_place:
  assumes "set_order_ok order"
    and "\<forall>a \<in> set semantic_results. a < length h \<and> h ! a \<noteq> []"
    and "score_fusion order argsort self h query semantic_results bm25_weight
           = Inr (bm25_results, bm25_scores, semantic_scores, combined)"
  shows "\<exists>results h'.
           hybrid_search order argsort self h query semantic_results bm25_weight top_k
             = Inr (results, h')
           \<and> length h \<le> length h'
           \<and> (\<forall>msg_id \<in> set (sorted_ids combined top_k). \<forall>a.
                 find_semantic h semantic_results msg_id = Some a \<longrightarrow>
                   a \<in> set semantic_results \<and> a \<in> set results
                   \<and> dict_get (h' ! a) ''hybrid_score'' PNone
                       = PFloat (score_get combined msg_id)
                   \<and> dict_get (h' ! a) ''bm25_score'' PNone
                       = PFloat (score_get bm25_scores msg_id)
                   \<and> dict_get (h' ! a) ''semantic_score'' PNone
                       = PFloat (score_get semantic_scores msg_id)
                   \<and> (\<forall>k. k \<notin> {''hybrid_score'', ''bm25_score'', ''semantic_score''} \<longrightarrow>
                          map_of (h' ! a) k = map_of (h ! a) k))
           \<and> (\<forall>b \<in> set results. b \<in> set semantic_results \<or> length h \<le> b)
           \<and> (\<forall>b < length h. b \<notin> set results \<longrightarrow> h' ! b = h ! b)"
proof -
  let ?R = "result_for semantic_results bm25_results combined bm25_scores semantic_scores h"
  from hybrid_search_spec [OF assms, of top_k] obtain results h' where
    hs: "hybrid_search order argsort self h query semantic_results bm25_weight top_k
           = Inr (results, h')"
    and len: "length h \<le> length h'"
    and all2: "list_all2 (?R h') (sorted_ids combined top_k) results"
    and frame: "\<forall>b < length h. b \<notin> set results \<longrightarrow> h' ! b = h ! b"
    by (elim exE conjE)
  have dense: "a \<in> set semantic_results \<and> a \<in> set results
                 \<and> dict_get (h' ! a) ''hybrid_score'' PNone = PFloat (score_get combined msg_id)
                 \<and> dict_get (h' ! a) ''bm25_score'' PNone = PFloat (score_get bm25_scores msg_id)
                 \<and> dict_get (h' ! a) ''semantic_score'' PNone
                     = PFloat (score_get semantic_scores msg_id)
                 \<and> (\<forall>k. k \<notin> {''hybrid_score'', ''bm25_score'', ''semantic_score''} \<longrightarrow>
                        map_of (h' ! a) k = map_of (h ! a) k)"
    if m: "msg_id \<in> set (sorted_ids combined top_k)"
      and f: "find_semantic h semantic_results msg_id = Some a" for msg_id a
  proof -
    from m obtain n where n: "n < length (sorted_ids combined top_k)"
      "sorted_ids combined top_k ! n = msg_id"
      by (auto simp: in_set_conv_nth)
    with all2 have "?R h' msg_id (results ! n)" and nr: "n < length results"
      by (auto simp: list_all2_conv_all_nth)
    with f have ra: "results ! n = a"
      and ha: "h' ! a = scored combined bm25_scores semantic_scores (h ! a) msg_id"
      by (auto simp: result_for_def)
    have "a \<in> set results"
      using nr ra by (auto simp: in_set_conv_nth)
    moreover have "\<forall>k. k \<notin> {''hybrid_score'', ''bm25_score'', ''semantic_score''} \<longrightarrow>
                        map_of (h' ! a) k = map_of (h ! a) k"
      unfolding ha scored_def by (simp add: map_of_write_scores_all)
    ultimately show ?thesis
      using find_semantic_mem [OF f] by (simp add: ha dict_get_scored)
  qed
  have origin: "b \<in> set semantic_results \<or> length h \<le> b" if b: "b \<in> set results" for b
  proof -
    from b obtain n where n: "n < length results" "results ! n = b"
      by (auto simp: in_set_conv_nth)
    with all2 have "?R h' (sorted_ids combined top_k ! n) b"
      by (auto simp: list_all2_conv_all_nth)
    then show ?thesis
      by (auto simp: result_for_def split: option.splits dest: find_semantic_mem)
  qed
  from hs len dense origin frame show ?thesis by blast
qed

text \<open>
  C8: the fused ids are the union of the ids of the two lists, and all of them are ranked:
  when \<open>top_k\<close> is at least their number, each of them is in the output. The fused score
  of an id counts 0 for the list the id is missing from. For each surviving id the display
  fields are those of the first dense result with this id, which is the very dictionary
  returned; when there is none, they are the raw fields of the lexical result, in a new
  dictionary whose distance is the placeholder 0.5.
\<close>

theorem hybrid_search_missing_zero:
  assumes "set_order_ok order"
    and "\<forall>a \<in> set semantic_results. a < length h \<and> h ! a \<noteq> []"
    and "score_fusion order argsort self h query semantic_results bm25_weight
           = Inr (bm25_results, bm25_scores, semantic_scores, combined)"
  shows "\<exists>results h'.
           hybrid_search order argsort self h query semantic_results bm25_weight top_k = Inr (results, h')
           \<and> fst ` set bm25_scores = (\<lambda>r. PStr (r_id r)) ` set bm25_results
           \<and> fst ` set semantic_scores = (\<lambda>a. id_of (h ! a)) ` set semantic_results
           \<and> set (sorted_ids combined top_k) \<subseteq> fst ` set bm25_scores \<union> fst ` set semantic_scores
           \<and> (int (length (all_ids order bm25_scores semantic_scores)) \<le> top_k \<longrightarrow>
                set (sorted_ids combined top_k) = fst ` set bm25_scores \<union> fst ` set semantic_scores)
           \<and> list_all2
                (\<lambda>msg_id b. recovered semantic_results bm25_results h h' msg_id b
                            \<and> fused_with bm25_weight bm25_scores semantic_scores h' msg_id b)
                (sorted_ids combined top_k) results"
proof -
  note keys = score_fusion_keys [OF assms(3)]
  let ?ids = "sorted_ids combined top_k"
  have ids: "?ids = rank_ids (score_get combined) (all_ids order bm25_scores semantic_scores) top_k"
    by (simp add: sorted_ids_def keys(3) keys_combined_scores)
  have sub: "set ?ids \<subseteq> set (all_ids order bm25_scores semantic_scores)"
    unfolding ids by (rule set_rank_ids)
  have full: "int (length (all_ids order bm25_scores semantic_scores)) \<le> top_k \<longrightarrow>
                set ?ids = set (all_ids order bm25_scores semantic_scores)"
    unfolding ids by (simp add: set_rank_ids_all)
  from hybrid_search_spec [OF assms, of top_k] obtain results h' where
    hs: "hybrid_search order argsort self h query semantic_results bm25_weight top_k = Inr (results, h')"
    and all2: "list_all2
                 (result_for semantic_results bm25_results combined bm25_scores semantic_scores h h')
                 ?ids results"
    by blast
  have "list_all2
          (\<lambda>msg_id b. recovered semantic_results bm25_results h h' msg_id b
                      \<and> fused_with bm25_weight bm25_scores semantic_scores h' msg_id b)
          ?ids results"
    using all2
  proof (rule list.rel_mono_strong)
    fix i b
    assume i: "i \<in> set ?ids"
      and r: "result_for semantic_results bm25_results combined bm25_scores semantic_scores h h' i b"
    from i sub have "i \<in> set (all_ids order bm25_scores semantic_scores)" by blast
    with r show "recovered semantic_results bm25_results h h' i b
                 \<and> fused_with bm25_weight bm25_scores semantic_scores h' i b"
      by (simp add: result_for_recovered result_for_fused_with [unfolded keys(3) [symmetric]] keys(3))
  qed
  with hs keys(1,2) sub full show ?thesis
    by (auto simp: set_all_ids [OF assms(1)])
qed

lemma hybrid_search_ranking:
  assumes "set_order_ok order"
    and "\<forall>a \<in> set srs. a < length h \<and> h ! a \<noteq> []"
    and "score_fusion order argsort self h query srs w = Inr (bm, nb, ns, comb)"
  shows "\<exists>rs h'. hybrid_search order argsort self h query srs w top_k = Inr (rs, h')
           \<and> map (\<lambda>b. id_of (h' ! b)) rs = sorted_ids (combined_scores order w nb ns) top_k
           \<and> list_all2 (fused_with w nb ns h') (sorted_ids (combined_scores order w nb ns) top_k) rs"
proof -
  note keys = score_fusion_keys [OF assms(3)]
  let ?ids = "sorted_ids (combined_scores order w nb ns) top_k"
  from hybrid_search_spec [OF assms, of top_k] obtain rs h' where
    hs: "hybrid_search order argsort self h query srs w top_k = Inr (rs, h')"
    and all2: "list_all2 (result_for srs bm (combined_scores order w nb ns) nb ns h h') ?ids rs"
    by (auto simp: keys(3))
  have sub: "set ?ids \<subseteq> set (all_ids order nb ns)"
    using set_rank_ids [of "score_get (combined_scores order w nb ns)" "all_ids order nb ns" top_k]
    by (simp add: sorted_ids_def keys_combined_scores)
  have "list_all2 (\<lambda>i b. id_of (h' ! b) = i) ?ids rs"
    using all2 by (rule list_all2_mono) (rule result_for_id)
  then have ids: "map (\<lambda>b. id_of (h' ! b)) rs = ?ids"
    by (rule list_all2_map_eq)
  have "list_all2 (fused_with w nb ns h') ?ids rs"
    using all2 by (rule list.rel_mono_strong) (use sub in \<open>auto intro: result_for_fused_with\<close>)
  with hs ids show ?thesis by blast
qed

lemma slice_to_take: "\<exists>m. slice_to k xs = take m xs"
  by (auto simp: slice_to_def)

lemma sorted_rank_ids: "sorted_wrt (\<lambda>i j. f j \<le> f i) (rank_ids f ids top_k)"
proof -
  have "sorted (map (\<lambda>x. - f x) (sort_key (\<lambda>x. - f x) ids))"
    by (rule sorted_sort_key)
  then have "sorted_wrt (\<lambda>i j. f j \<le> f i) (sort_key (\<lambda>x. - f x) ids)"
    by (simp add: sorted_map)
  then show ?thesis
    unfolding rank_ids_def by (rule sorted_wrt_slice_to)
qed

lemma rank_ids_dominates:
  assumes "i \<in> set ids" and "i \<notin> set (rank_ids f ids top_k)" and "j \<in> set (rank_ids f ids top_k)"
  shows "f i \<le> f j"
proof -
  let ?xs = "sort_key (\<lambda>x. - f x) ids"
  obtain m where m: "rank_ids f ids top_k = take m ?xs"
    unfolding rank_ids_def using slice_to_take by blast
  have srt: "sorted_wrt (\<lambda>i j. f j \<le> f i) ?xs"
    using sorted_sort_key [of "\<lambda>x. - f x" ids] by (simp add: sorted_map)
  have "i \<in> set ?xs" using assms(1) by simp
  with assms(2) have "i \<in> set (drop m ?xs)"
    using outside_take [of i ?xs m] by (simp add: m)
  with take_dominates [OF srt, of j m i] assms(3) show ?thesis
    by (simp add: m)
qed

lemma list_all2_maps_eq: "list_all2 (\<lambda>x y. g y = f x) xs ys \<Longrightarrow> map g ys = map f xs"
  by (induction xs ys rule: list_all2_induct) auto

lemma hybrid_score_of_fused:
  "dict_get d ''hybrid_score'' PNone = PFloat x \<Longrightarrow> hybrid_score_of d = x"
  by (simp add: hybrid_score_of_def)

lemma hybrid_search_ranked_by:
  assumes ok: "set_order_ok order"
    and wf: "\<forall>a \<in> set srs. a < length h \<and> h ! a \<noteq> []"
    and fus: "score_fusion order argsort self h query srs w = Inr (bm, nb, ns, comb)"
    and f: "\<forall>i \<in> set (all_ids order nb ns). combined_score w nb ns i = f i"
  shows "\<exists>rs h'. hybrid_search order argsort self h query srs w top_k = Inr (rs, h')
           \<and> map (\<lambda>b. id_of (h' ! b)) rs = rank_ids f (all_ids order nb ns) top_k
           \<and> list_all2 (\<lambda>i b. dict_get (h' ! b) ''hybrid_score'' PNone = PFloat (f i))
                (rank_ids f (all_ids order nb ns) top_k) rs
           \<and> sorted_wrt (\<lambda>b b'. hybrid_score_of (h' ! b') \<le> hybrid_score_of (h' ! b)) rs
           \<and> (\<forall>i \<in> fst ` set nb \<union> fst ` set ns.
                 i \<notin> (\<lambda>b. id_of (h' ! b)) ` set rs \<longrightarrow>
                   (\<forall>b \<in> set rs. f i \<le> hybrid_score_of (h' ! b)))"
proof -
  let ?all = "all_ids order nb ns"
  let ?ids = "sorted_ids (combined_scores order w nb ns) top_k"
  have "\<forall>i \<in> set ?all. score_get (combined_scores order w nb ns) i = f i"
    using f by (simp add: score_get_combined_scores)
  then have ids_eq: "?ids = rank_ids f ?all top_k"
    unfolding sorted_ids_def keys_combined_scores by (rule rank_ids_cong)
  have sub: "set ?ids \<subseteq> set ?all"
    unfolding ids_eq by (rule set_rank_ids)
  from hybrid_search_ranking [OF ok wf fus, of top_k] obtain rs h' where
    hs: "hybrid_search order argsort self h query srs w top_k = Inr (rs, h')"
    and ids: "map (\<lambda>b. id_of (h' ! b)) rs = ?ids"
    and fw: "list_all2 (fused_with w nb ns h') ?ids rs"
    by (elim exE conjE)
  have sc: "list_all2 (\<lambda>i b. dict_get (h' ! b) ''hybrid_score'' PNone = PFloat (f i)) ?ids rs"
    using fw
  proof (rule list.rel_mono_strong)
    fix i b assume "i \<in> set ?ids" and "fused_with w nb ns h' i b"
    with sub f show "dict_get (h' ! b) ''hybrid_score'' PNone = PFloat (f i)"
      by (auto simp: fused_with_def contribution_eq combined_score_def)
  qed
  then have "list_all2 (\<lambda>i b. hybrid_score_of (h' ! b) = f i) ?ids rs"
    by (rule list_all2_mono) (rule hybrid_score_of_fused)
  then have vals: "map (\<lambda>b. hybrid_score_of (h' ! b)) rs = map f ?ids"
    by (rule list_all2_maps_eq)
  have "sorted_wrt (\<lambda>x y. y \<le> x) (map f ?ids)"
    unfolding ids_eq sorted_wrt_map by (rule sorted_rank_ids)
  then have srt: "sorted_wrt (\<lambda>b b'. hybrid_score_of (h' ! b') \<le> hybrid_score_of (h' ! b)) rs"
    unfolding vals [symmetric] sorted_wrt_map .
  have dom: "\<forall>b \<in> set rs. f i \<le> hybrid_score_of (h' ! b)"
    if i: "i \<in> fst ` set nb \<union> fst ` set ns" "i \<notin> (\<lambda>b. id_of (h' ! b)) ` set rs" for i
  proof
    fix b assume b: "b \<in> set rs"
    from i(1) have iall: "i \<in> set ?all" by (simp add: set_all_ids [OF ok])
    have "set ?ids = (\<lambda>b. id_of (h' ! b)) ` set rs"
      unfolding ids [symmetric] by simp
    with i(2) have inot: "i \<notin> set (rank_ids f ?all top_k)"
      by (simp add: ids_eq [symmetric])
    from b obtain n where n: "n < length rs" "rs ! n = b"
      by (auto simp: in_set_conv_nth)
    with sc have val: "dict_get (h' ! b) ''hybrid_score'' PNone = PFloat (f (?ids ! n))"
      and nin: "n < length ?ids"
      by (auto simp: list_all2_conv_all_nth)
    from nin have "?ids ! n \<in> set (rank_ids f ?all top_k)"
      by (simp add: ids_eq [symmetric])
    from rank_ids_dominates [OF iall inot this] val
    show "f i \<le> hybrid_score_of (h' ! b)"
      by (simp add: hybrid_score_of_fused)
  qed
  from hs ids sc srt dom show ?thesis
    unfolding ids_eq by blast
qed

text \<open>
  C3: with \<open>bm25_weight = 1\<close> the fused score of every returned dictionary is the
  normalized lexical score of its id alone (0 for an id the lexical list does not have):
  the returned scores do not increase along the list, no fused id that is left out has a
  higher lexical score than a returned one, and the ids are those of the fused ids ranked
  by this score alone, ties in the order in which the set of ids is iterated, whatever
  that order is. With \<open>bm25_weight = 0\<close> the same holds for the normalized dense similarity.
\<close>

theorem hybrid_search_single_signal:
  assumes "set_order_ok order"
    and "\<forall>a \<in> set semantic_results. a < length h \<and> h ! a \<noteq> []"
  shows "(score_fusion order argsort self h query semantic_results 1
            = Inr (bm25_results, bm25_scores, semantic_scores, combined1) \<longrightarrow>
          (\<exists>results h'.
             hybrid_search order argsort self h query semantic_results 1 top_k = Inr (results, h')
             \<and> map (\<lambda>b. id_of (h' ! b)) results
                 = rank_ids (score_get bm25_scores) (all_ids order bm25_scores semantic_scores) top_k
             \<and> list_all2 (\<lambda>msg_id b. dict_get (h' ! b) ''hybrid_score'' PNone
                                        = PFloat (score_get bm25_scores msg_id))
                  (rank_ids (score_get bm25_scores) (all_ids order bm25_scores semantic_scores) top_k)
                  results
             \<and> sorted_wrt (\<lambda>b b'. hybrid_score_of (h' ! b') \<le> hybrid_score_of (h' ! b)) results
             \<and> (\<forall>i \<in> fst ` set bm25_scores \<union> fst ` set semantic_scores.
                   i \<notin> (\<lambda>b. id_of (h' ! b)) ` set results \<longrightarrow>
                     (\<forall>b \<in> set results. score_get bm25_scores i \<le> hybrid_score_of (h' ! b)))))
       \<and> (score_fusion order argsort self h query semantic_results 0
            = Inr (bm25_results, bm25_scores, semantic_scores, combined0) \<longrightarrow>
          (\<exists>results h'.
             hybrid_search order argsort self h query semantic_results 0 top_k = Inr (results, h')
             \<and> map (\<lambda>b. id_of (h' ! b)) results
                 = rank_ids (score_get semantic_scores) (all_ids order bm25_scores semantic_scores) top_k
             \<and> list_all2 (\<lambda>msg_id b. dict_get (h' ! b) ''hybrid_score'' PNone
                                        = PFloat (score_get semantic_scores msg_id))
                  (rank_ids (score_get semantic_scores) (all_ids order bm25_scores semantic_scores) top_k)
                  results
             \<and> sorted_wrt (\<lambda>b b'. hybrid_score_of (h' ! b') \<le> hybrid_score_of (h' ! b)) results
             \<and> (\<forall>i \<in> fst ` set bm25_scores \<union> fst ` set semantic_scores.
                   i \<notin> (\<lambda>b. id_of (h' ! b)) ` set results \<longrightarrow>
                     (\<forall>b \<in> set results. score_get semantic_scores i \<le> hybrid_score_of (h' ! b)))))"
proof (intro conjI impI)
  assume "score_fusion order argsort self h query semantic_results 1
            = Inr (bm25_results, bm25_scores, semantic_scores, combined1)"
  with assms show "\<exists>results h'.
             hybrid_search order argsort self h query semantic_results 1 top_k = Inr (results, h')
             \<and> map (\<lambda>b. id_of (h' ! b)) results
                 = rank_ids (score_get bm25_scores) (all_ids order bm25_scores semantic_scores) top_k
             \<and> list_all2 (\<lambda>msg_id b. dict_get (h' ! b) ''hybrid_score'' PNone
                                        = PFloat (score_get bm25_scores msg_id))
                  (rank_ids (score_get bm25_scores) (all_ids order bm25_scores semantic_scores) top_k)
                  results
             \<and> sorted_wrt (\<lambda>b b'. hybrid_score_of (h' ! b') \<le> hybrid_score_of (h' ! b)) results
             \<and> (\<forall>i \<in> fst ` set bm25_scores \<union> fst ` set semantic_scores.
                   i \<notin> (\<lambda>b. id_of (h' ! b)) ` set results \<longrightarrow>
                     (\<forall>b \<in> set results. score_get bm25_scores i \<le> hybrid_score_of (h' ! b)))"
    by (rule hybrid_search_ranked_by) (simp add: combined_score_def)
next
  assume "score_fusion order argsort self h query semantic_results 0
            = Inr (bm25_results, bm25_scores, semantic_scores, combined0)"
  with assms show "\<exists>results h'.
             hybrid_search order argsort self h query semantic_results 0 top_k = Inr (results, h')
             \<and> map (\<lambda>b. id_of (h' ! b)) results
                 = rank_ids (score_get semantic_scores) (all_ids order bm25_scores semantic_scores) top_k
             \<and> list_all2 (\<lambda>msg_id b. dict_get (h' ! b) ''hybrid_score'' PNone
                                        = PFloat (score_get semantic_scores msg_id))
                  (rank_ids (score_get semantic_scores) (all_ids order bm25_scores semantic_scores) top_k)
                  results
             \<and> sorted_wrt (\<lambda>b b'. hybrid_score_of (h' ! b') \<le> hybrid_score_of (h' ! b)) results
             \<and> (\<forall>i \<in> fst ` set bm25_scores \<union> fst ` set semantic_scores.
                   i \<notin> (\<lambda>b. id_of (h' ! b)) ` set results \<longrightarrow>
                     (\<forall>b \<in> set results. score_get semantic_scores i \<le> hybrid_score_of (h' ! b)))"
    by (rule hybrid_search_ranked_by) (simp add: combined_score_def)
qed

lemma dense_heap_list_wf:
  "list_all (\<lambda>a. a < length dense_heap \<and> dense_heap ! a \<noteq> []) [0, 1]"
  using dense_heap_wf unfolding list_all_iff .

theorem hybrid_search_in_place_witness:
  "set_order_ok remdups
   \<and> list_all (\<lambda>a. a < length dense_heap \<and> dense_heap ! a \<noteq> []) [0, 1]
   \<and> score_fusion remdups argsort_stable indexed5 dense_heap ''london'' [0, 1] (3 / 5)
       = Inr (fusion_example (3 / 5))
   \<and> sorted_ids (combined_scores remdups (3 / 5) bm25_scores_example semantic_scores_example) 2
       = [PStr ''2'', PStr ''1'']
   \<and> find_semantic dense_heap [0, 1] (PStr ''2'') = Some 0
   \<and> dict_get (dense_heap ! 0) ''hybrid_score'' PNone = PNone
   \<and> (\<exists>results h'.
         hybrid_search remdups argsort_stable indexed5 dense_heap ''london'' [0, 1] (3 / 5) 2
           = Inr (results, h')
         \<and> results = [0, 2]
         \<and> dict_get (h' ! 0) ''hybrid_score'' PNone = PFloat 1
         \<and> dict_get (h' ! 0) ''bm25_score'' PNone = PFloat 1
         \<and> dict_get (h' ! 0) ''semantic_score'' PNone = PFloat 1
         \<and> map_of (h' ! 0) ''document'' = map_of (dense_heap ! 0) ''document''
         \<and> h' ! 1 = dense_heap ! 1)"
proof -
  let ?comb = "combined_scores remdups (3 / 5) bm25_scores_example semantic_scores_example"
  have fs: "find_semantic dense_heap [0, 1] (PStr ''2'') = Some 0"
    by code_simp
  have before: "dict_get (dense_heap ! 0) ''hybrid_score'' PNone = PNone"
    by (simp add: dense_heap_def dict_get_def)
  have sc: "score_get ?comb (PStr ''2'') = 1"
    "score_get bm25_scores_example (PStr ''2'') = 1"
    "score_get semantic_scores_example (PStr ''2'') = 1"
    by code_simp+
  from hybrid_search_in_place [OF set_order_ok_remdups dense_heap_wf
      score_fusion_example [of "3 / 5", unfolded fusion_example_def], of 2]
  obtain results h' where
    hs: "hybrid_search remdups argsort_stable indexed5 dense_heap ''london'' [0, 1] (3 / 5) 2
           = Inr (results, h')"
    and dense: "\<forall>msg_id \<in> set (sorted_ids ?comb 2). \<forall>a.
                 find_semantic dense_heap [0, 1] msg_id = Some a \<longrightarrow>
                   a \<in> set [0, 1] \<and> a \<in> set results
                   \<and> dict_get (h' ! a) ''hybrid_score'' PNone = PFloat (score_get ?comb msg_id)
                   \<and> dict_get (h' ! a) ''bm25_score'' PNone
                       = PFloat (score_get bm25_scores_example msg_id)
                   \<and> dict_get (h' ! a) ''semantic_score'' PNone
                       = PFloat (score_get semantic_scores_example msg_id)
                   \<and> (\<forall>k. k \<notin> {''hybrid_score'', ''bm25_score'', ''semantic_score''} \<longrightarrow>
                          map_of (h' ! a) k = map_of (dense_heap ! a) k)"
    and frame: "\<forall>b < length dense_heap. b \<notin> set results \<longrightarrow> h' ! b = dense_heap ! b"
    by (elim exE conjE)
  from hs results_example(2) have res: "results = [0, 2]" by simp
  have mem: "PStr ''2'' \<in> set (sorted_ids ?comb 2)"
    unfolding sorted_ids_example by simp
  note d = dense [rule_format, OF mem fs, THEN conjunct2, THEN conjunct2]
  note w = d [THEN conjunct1] d [THEN conjunct2, THEN conjunct1]
    d [THEN conjunct2, THEN conjunct2, THEN conjunct1]
  note other = d [THEN conjunct2, THEN conjunct2, THEN conjunct2]
  have doc: "map_of (h' ! 0) ''document'' = map_of (dense_heap ! 0) ''document''"
    using other by simp
  have "1 < length dense_heap" "1 \<notin> set results"
    by (simp_all add: dense_heap_def res)
  with frame have w1: "h' ! 1 = dense_heap ! 1"
    by blast
  from hs res w [unfolded sc] doc w1 have ex: "\<exists>results h'.
         hybrid_search remdups argsort_stable indexed5 dense_heap ''london'' [0, 1] (3 / 5) 2
           = Inr (results, h')
         \<and> results = [0, 2]
         \<and> dict_get (h' ! 0) ''hybrid_score'' PNone = PFloat 1
         \<and> dict_get (h' ! 0) ''bm25_score'' PNone = PFloat 1
         \<and> dict_get (h' ! 0) ''semantic_score'' PNone = PFloat 1
         \<and> map_of (h' ! 0) ''document'' = map_of (dense_heap ! 0) ''document''
         \<and> h' ! 1 = dense_heap ! 1"
    by (intro exI conjI)
  from set_order_ok_remdups dense_heap_list_wf score_fusion_example [of "3 / 5"]
    sorted_ids_example(2) fs before ex
  show ?thesis by (intro conjI)
qed

theorem hybrid_search_missing_zero_witness:
  "set_order_ok remdups
   \<and> list_all (\<lambda>a. a < length dense_heap \<and> dense_heap ! a \<noteq> []) [0, 1]
   \<and> score_fusion remdups argsort_stable indexed5 dense_heap ''london'' [0, 1] (3 / 5)
       = Inr (fusion_example (3 / 5))
   \<and> sorted_ids (combined_scores remdups (3 / 5) bm25_scores_example semantic_scores_example) 30
       = [PStr ''2'', PStr ''1'', PStr ''3'']
   \<and> find_semantic dense_heap [0, 1] (PStr ''1'') = None
   \<and> find_bm25 lexical_example (PStr ''3'') = None
   \<and> (\<exists>results h'.
         hybrid_search remdups argsort_stable indexed5 dense_heap ''london'' [0, 1] (3 / 5) 30
           = Inr (results, h')
         \<and> results = [0, 2, 1]
         \<and> dict_get (h' ! 2) ''hybrid_score'' PNone = PFloat (3 / 5 * 1 + (1 - 3 / 5) * 0)
         \<and> dict_get (h' ! 2) ''semantic_score'' PNone = PFloat 0
         \<and> dict_get (h' ! 2) ''document'' PNone = PStr ''Trip to London''
         \<and> dict_get (h' ! 2) ''distance'' PNone = PFloat 0.5
         \<and> dict_get (h' ! 1) ''hybrid_score'' PNone = PFloat (3 / 5 * 0 + (1 - 3 / 5) * (2 / 3))
         \<and> dict_get (h' ! 1) ''bm25_score'' PNone = PFloat 0
         \<and> display_fields (h' ! 1) = display_fields (dense_heap ! 1))"
proof -
  let ?comb = "combined_scores remdups (3 / 5) bm25_scores_example semantic_scores_example"
  have f1: "find_semantic dense_heap [0, 1] (PStr ''1'') = None"
    and f3: "find_semantic dense_heap [0, 1] (PStr ''3'') = Some 1"
    by code_simp+
  have b1: "find_bm25 lexical_example (PStr ''1'') = Some (mk_result msg1 tie_score)"
    and b3: "find_bm25 lexical_example (PStr ''3'') = None"
    by (simp_all add: lexical_example_def mk_result_def msg1_def msg2_def)
  have c: "contribution bm25_scores_example (PStr ''1'') = 1"
    "contribution semantic_scores_example (PStr ''1'') = 0"
    "contribution bm25_scores_example (PStr ''3'') = 0"
    "contribution semantic_scores_example (PStr ''3'') = 2 / 3"
    by code_simp+
  have "\<exists>results h'.
           hybrid_search remdups argsort_stable indexed5 dense_heap ''london'' [0, 1] (3 / 5) 30
             = Inr (results, h')
           \<and> fst ` set bm25_scores_example = (\<lambda>r. PStr (r_id r)) ` set lexical_example
           \<and> fst ` set semantic_scores_example = (\<lambda>a. id_of (dense_heap ! a)) ` set [0, 1]
           \<and> set (sorted_ids ?comb 30)
               \<subseteq> fst ` set bm25_scores_example \<union> fst ` set semantic_scores_example
           \<and> (int (length (all_ids remdups bm25_scores_example semantic_scores_example)) \<le> 30 \<longrightarrow>
                set (sorted_ids ?comb 30)
                  = fst ` set bm25_scores_example \<union> fst ` set semantic_scores_example)
           \<and> list_all2
                (\<lambda>msg_id b. recovered [0, 1] lexical_example dense_heap h' msg_id b
                   \<and> fused_with (3 / 5) bm25_scores_example semantic_scores_example h' msg_id b)
                (sorted_ids ?comb 30) results"
    by (rule hybrid_search_missing_zero [OF set_order_ok_remdups dense_heap_wf
          score_fusion_example [of "3 / 5", unfolded fusion_example_def]])
  then obtain results h' where
    hs: "hybrid_search remdups argsort_stable indexed5 dense_heap ''london'' [0, 1] (3 / 5) 30
             = Inr (results, h')"
    and all2: "list_all2
                (\<lambda>msg_id b. recovered [0, 1] lexical_example dense_heap h' msg_id b
                   \<and> fused_with (3 / 5) bm25_scores_example semantic_scores_example h' msg_id b)
                (sorted_ids ?comb 30) results"
    by (elim exE conjE)
  from hs results_example(1) have res: "results = [0, 2, 1]" by simp
  from all2 have
    r1: "recovered [0, 1] lexical_example dense_heap h' (PStr ''1'') 2"
    and u1: "fused_with (3 / 5) bm25_scores_example semantic_scores_example h' (PStr ''1'') 2"
    and r3: "recovered [0, 1] lexical_example dense_heap h' (PStr ''3'') 1"
    and u3: "fused_with (3 / 5) bm25_scores_example semantic_scores_example h' (PStr ''3'') 1"
    unfolding sorted_ids_example res by simp_all
  note v1 = u1 [unfolded fused_with_def c]
  note s1 = v1 [THEN conjunct1] v1 [THEN conjunct2, THEN conjunct2]
  note v3 = u3 [unfolded fused_with_def c]
  note s3 = v3 [THEN conjunct1] v3 [THEN conjunct2, THEN conjunct1]
  from r1 have d1: "dict_get (h' ! 2) ''document'' PNone = PStr ''Trip to London''"
    "dict_get (h' ! 2) ''distance'' PNone = PFloat 0.5"
    unfolding recovered_def f1 b1 display_fields_def
    by (simp_all add: mk_result_def msg1_def)
  from r3 have d3: "display_fields (h' ! 1) = display_fields (dense_heap ! 1)"
    unfolding recovered_def f3 by simp
  from hs res s1 d1 s3 d3 have ex: "\<exists>results h'.
         hybrid_search remdups argsort_stable indexed5 dense_heap ''london'' [0, 1] (3 / 5) 30
           = Inr (results, h')
         \<and> results = [0, 2, 1]
         \<and> dict_get (h' ! 2) ''hybrid_score'' PNone = PFloat (3 / 5 * 1 + (1 - 3 / 5) * 0)
         \<and> dict_get (h' ! 2) ''semantic_score'' PNone = PFloat 0
         \<and> dict_get (h' ! 2) ''document'' PNone = PStr ''Trip to London''
         \<and> dict_get (h' ! 2) ''distance'' PNone = PFloat 0.5
         \<and> dict_get (h' ! 1) ''hybrid_score'' PNone = PFloat (3 / 5 * 0 + (1 - 3 / 5) * (2 / 3))
         \<and> dict_get (h' ! 1) ''bm25_score'' PNone = PFloat 0
         \<and> display_fields (h' ! 1) = display_fields (dense_heap ! 1)"
    by (intro exI conjI)
  from set_order_ok_remdups dense_heap_list_wf score_fusion_example [of "3 / 5"]
    sorted_ids_example(1) f1 b3 ex
  show ?thesis by (intro conjI)
qed

theorem hybrid_search_single_signal_witness:
  "set_order_ok remdups
   \<and> list_all (\<lambda>a. a < length dense_heap \<and> dense_heap ! a \<noteq> []) [0, 1]
   \<and> score_fusion remdups argsort_stable indexed5 dense_heap ''london'' [0, 1] 1
       = Inr (fusion_example 1)
   \<and> score_fusion remdups argsort_stable indexed5 dense_heap ''london'' [0, 1] 0
       = Inr (fusion_example 0)
   \<and> (\<exists>results h'.
         hybrid_search remdups argsort_stable indexed5 dense_heap ''london'' [0, 1] 1 30
           = Inr (results, h')
         \<and> map (\<lambda>b. id_of (h' ! b)) results = [PStr ''1'', PStr ''2'', PStr ''3'']
         \<and> sorted_wrt (\<lambda>b b'. hybrid_score_of (h' ! b') \<le> hybrid_score_of (h' ! b)) results)
   \<and> (\<exists>results h'.
         hybrid_search remdups argsort_stable indexed5 dense_heap ''london'' [0, 1] 0 30
           = Inr (results, h')
         \<and> map (\<lambda>b. id_of (h' ! b)) results = [PStr ''2'', PStr ''3'', PStr ''1'']
         \<and> sorted_wrt (\<lambda>b b'. hybrid_score_of (h' ! b') \<le> hybrid_score_of (h' ! b)) results)"
proof -
  let ?ids = "all_ids remdups bm25_scores_example semantic_scores_example"
  have r1: "rank_ids (score_get bm25_scores_example) ?ids 30 = [PStr ''1'', PStr ''2'', PStr ''3'']"
    and r0: "rank_ids (score_get semantic_scores_example) ?ids 30
               = [PStr ''2'', PStr ''3'', PStr ''1'']"
    by code_simp+
  have "\<exists>results h'.
          hybrid_search remdups argsort_stable indexed5 dense_heap ''london'' [0, 1] 1 30
            = Inr (results, h')
          \<and> map (\<lambda>b. id_of (h' ! b)) results = rank_ids (score_get bm25_scores_example) ?ids 30
          \<and> list_all2 (\<lambda>msg_id b. dict_get (h' ! b) ''hybrid_score'' PNone
                                     = PFloat (score_get bm25_scores_example msg_id))
               (rank_ids (score_get bm25_scores_example) ?ids 30) results
          \<and> sorted_wrt (\<lambda>b b'. hybrid_score_of (h' ! b') \<le> hybrid_score_of (h' ! b)) results
          \<and> (\<forall>i \<in> fst ` set bm25_scores_example \<union> fst ` set semantic_scores_example.
                i \<notin> (\<lambda>b. id_of (h' ! b)) ` set results \<longrightarrow>
                  (\<forall>b \<in> set results. score_get bm25_scores_example i \<le> hybrid_score_of (h' ! b)))"
    by (rule hybrid_search_single_signal [OF set_order_ok_remdups dense_heap_wf,
          THEN conjunct1, THEN mp, OF score_fusion_example [of 1, unfolded fusion_example_def]])
  then obtain results1 h1 where
    "hybrid_search remdups argsort_stable indexed5 dense_heap ''london'' [0, 1] 1 30
       = Inr (results1, h1)"
    "map (\<lambda>b. id_of (h1 ! b)) results1 = rank_ids (score_get bm25_scores_example) ?ids 30"
    "sorted_wrt (\<lambda>b b'. hybrid_score_of (h1 ! b') \<le> hybrid_score_of (h1 ! b)) results1"
    by (elim exE conjE)
  then have lex: "\<exists>results h'.
         hybrid_search remdups argsort_stable indexed5 dense_heap ''london'' [0, 1] 1 30
           = Inr (results, h')
         \<and> map (\<lambda>b. id_of (h' ! b)) results = [PStr ''1'', PStr ''2'', PStr ''3'']
         \<and> sorted_wrt (\<lambda>b b'. hybrid_score_of (h' ! b') \<le> hybrid_score_of (h' ! b)) results"
    unfolding r1 by (intro exI conjI)
  have "\<exists>results h'.
          hybrid_search remdups argsort_stable indexed5 dense_heap ''london'' [0, 1] 0 30
            = Inr (results, h')
          \<and> map (\<lambda>b. id_of (h' ! b)) results = rank_ids (score_get semantic_scores_example) ?ids 30
          \<and> list_all2 (\<lambda>msg_id b. dict_get (h' ! b) ''hybrid_score'' PNone
                                     = PFloat (score_get semantic_scores_example msg_id))
               (rank_ids (score_get semantic_scores_example) ?ids 30) results
          \<and> sorted_wrt (\<lambda>b b'. hybrid_score_of (h' ! b') \<le> hybrid_score_of (h' ! b)) results
          \<and> (\<forall>i \<in> fst ` set bm25_scores_example \<union> fst ` set semantic_scores_example.
                i \<notin> (\<lambda>b. id_of (h' ! b)) ` set results \<longrightarrow>
                  (\<forall>b \<in> set results. score_get semantic_scores_example i \<le> hybrid_score_of (h' ! b)))"
    by (rule hybrid_search_single_signal [OF set_order_ok_remdups dense_heap_wf,
          THEN conjunct2, THEN mp, OF score_fusion_example [of 0, unfolded fusion_example_def]])
  then obtain results0 h0 where
    "hybrid_search remdups argsort_stable indexed5 dense_heap ''london'' [0, 1] 0 30
       = Inr (results0, h0)"
    "map (\<lambda>b. id_of (h0 ! b)) results0 = rank_ids (score_get semantic_scores_example) ?ids 30"
    "sorted_wrt (\<lambda>b b'. hybrid_score_of (h0 ! b') \<le> hybrid_score_of (h0 ! b)) results0"
    by (elim exE conjE)
  then have dense: "\<exists>results h'.
         hybrid_search remdups argsort_stable indexed5 dense_heap ''london'' [0, 1] 0 30
           = Inr (results, h')
         \<and> map (\<lambda>b. id_of (h' ! b)) results = [PStr ''2'', PStr ''3'', PStr ''1'']
         \<and> sorted_wrt (\<lambda>b b'. hybrid_score_of (h' ! b') \<le> hybrid_score_of (h' ! b)) results"
    unfolding r0 by (intro exI conjI)
  from set_order_ok_remdups dense_heap_list_wf score_fusion_example [of 1]
    score_fusion_example [of 0] lex dense
  show ?thesis by (intro conjI)
qed

end
